theory Spec2Isabelle
  imports Complex_Main "HOL-Library.Log_Nat" "HOL-Library.Multiset"
begin


section \<open>Data model (sparkmon.go, lines 230-267)\<close>

text \<open>
  Go's \<open>int\<close> fields are modelled as \<open>int\<close>; the row and column arithmetic of the layout
  cannot reach the 64-bit limits for any list that fits in memory. Go strings are byte
  sequences, \<open>len\<close> counts bytes and slicing cuts bytes: they are \<open>string\<close> here
  (a \<open>char\<close> is one byte). The field names of the Go structs carry the struct's name as
  a prefix, since several structs share \<open>Name\<close>, \<open>Index\<close> and \<open>Stages\<close>.
\<close>

record ApplicationIdAndName =
  app_Id :: string
  app_Name :: string

record Job =
  job_Index :: int
  job_Name :: string
  job_Stages :: "int list"
  job_Status :: string

record Stage =
  stage_Index :: int
  stage_Name :: string
  stage_Details :: string
  stage_Status :: string
  stage_Tasks :: int
  stage_ActiveTasks :: int
  stage_CompletedTasks :: int
  stage_FailedTasks :: int
  stage_KilledTasks :: int

record EnrichedJob =
  ej_Job :: Job
  ej_Stages :: "Stage list"

record EnrichedApplication =
  ea_App :: ApplicationIdAndName
  ea_Jobs :: "EnrichedJob list"

record State =
  st_Apps :: "EnrichedApplication list"
  st_Host :: string

text \<open>
  The ways the program stops: \<open>log.Fatalf\<close> in \<open>readApiEndpoint\<close> (the message is kept),
  the run-time panic of a slice expression whose bound is out of range (line 102), and the
  panic of the type assertion on the event payload (line 46).
\<close>

datatype failure =
    Fatal string
  | PanicSliceBounds int nat
  | PanicTypeAssertion

section \<open>The draw surface\<close>

text \<open>
  The widgets of the terminal library, with the fields that \<open>render\<close> sets. \<open>SetRect\<close>
  is recorded with its four arguments as the code passes them.
\<close>

record rect =
  rx1 :: int
  ry1 :: int
  rx2 :: int
  ry2 :: int

datatype modifier = ModifierDefault | ModifierClear | ModifierBold | ModifierBoldUnderline

datatype colour = ColorDefault | ColorRed

datatype drawable =
    Paragraph bool string modifier colour rect
  | Gauge bool string int rect
  | Block bool string modifier rect

fun GetRect :: "drawable \<Rightarrow> rect" where
  "GetRect (Paragraph b t m c r) = r"
| "GetRect (Gauge b l p r) = r"
| "GetRect (Block b t m r) = r"

fun is_block :: "drawable \<Rightarrow> bool" where
  "is_block (Block b t m r) = True"
| "is_block _ = False"

definition SetRect :: "int \<Rightarrow> int \<Rightarrow> int \<Rightarrow> int \<Rightarrow> rect" where
  "SetRect x1 y1 x2 y2 = \<lparr>rx1 = x1, ry1 = y1, rx2 = x2, ry2 = y2\<rparr>"


definition rect_height :: "rect \<Rightarrow> int" where
  "rect_height r = ry2 r - ry1 r"

section \<open>Formatting and string helpers\<close>

text \<open>\<open>%v\<close> of a Go \<open>int\<close>: the decimal digits, with a minus sign for a negative number.\<close>

definition digit_char :: "nat \<Rightarrow> char" where
  "digit_char d = ''0123456789'' ! d"

function itoa_nat :: "nat \<Rightarrow> string" where
  "itoa_nat n = (if n < 10 then [digit_char n] else itoa_nat (n div 10) @ [digit_char (n mod 10)])"
  by pat_completeness auto
termination
  by (relation "measure (\<lambda>n. n)") auto

definition itoa :: "int \<Rightarrow> string" where
  "itoa i = (if i < 0 then CHR ''-'' # itoa_nat (nat (- i)) else itoa_nat (nat i))"

text \<open>Go's integer division truncates towards zero (line 74, \<open>width / 2\<close>).\<close>

definition go_div :: "int \<Rightarrow> int \<Rightarrow> int" where
  "go_div a b = sgn a * sgn b * (\<bar>a\<bar> div \<bar>b\<bar>)"

text \<open>\<open>strings.Split(s, "\n")\<close>: the pieces between the newlines; one empty piece for the empty string.\<close>

fun strings_Split_nl :: "string \<Rightarrow> string list" where
  "strings_Split_nl [] = [[]]"
| "strings_Split_nl (c # cs) =
     (if c = CHR 0x0A then [] # strings_Split_nl cs
      else (case strings_Split_nl cs of
              [] \<Rightarrow> [[c]]
            | l # ls \<Rightarrow> (c # l) # ls))"

definition strings_HasPrefix :: "string \<Rightarrow> string \<Rightarrow> bool" where
  "strings_HasPrefix s p \<longleftrightarrow> length s \<ge> length p \<and> take (length p) s = p"

section \<open>IEEE 754 double precision, as far as line 115 uses it\<close>

text \<open>
  A \<open>float64\<close> is a rational (a finite value), an infinity or NaN. The operands of line 115
  come from 64-bit integers, so a non-zero quotient has a magnitude between \<open>2^-63\<close> and
  \<open>2^63\<close> and its product with 100 stays below \<open>2^70\<close>: the exponent range of the format is
  never left, and rounding is to 53 significant bits, to nearest, ties to even. The
  zero that arises is the positive one (the conversion of the integer 0).
\<close>

datatype float64 = Finite rat | PosInf | NegInf | NaN

text \<open>\<open>ilog2 x\<close> is the exponent \<open>e\<close> with \<open>2^e \<le> x < 2^(e+1)\<close>, for a positive \<open>x\<close>.\<close>

definition ilog2 :: "rat \<Rightarrow> int" where
  "ilog2 x = (if 1 \<le> x then int (floorlog 2 (nat \<lfloor>x\<rfloor>)) - 1
              else - int (floorlog 2 (nat (\<lceil>1 / x\<rceil> - 1))))"

definition round_half_even :: "rat \<Rightarrow> int" where
  "round_half_even q =
     (let f = \<lfloor>q\<rfloor>; r = q - of_int f
      in if r < 1 / 2 then f
         else if 1 / 2 < r then f + 1
         else if even f then f else f + 1)"

definition round53 :: "rat \<Rightarrow> rat" where
  "round53 x =
     (if x = 0 then 0
      else (let s = 2 powi (ilog2 \<bar>x\<bar> - 52)
            in sgn x * of_int (round_half_even (\<bar>x\<bar> / s)) * s))"

definition float64_of_int :: "int \<Rightarrow> float64" where
  "float64_of_int n = Finite (round53 (of_int n))"

fun float64_div :: "float64 \<Rightarrow> float64 \<Rightarrow> float64" where
  "float64_div (Finite a) (Finite b) =
     (if b = 0 then (if a = 0 then NaN else if 0 < a then PosInf else NegInf)
      else Finite (round53 (a / b)))"
| "float64_div NaN _ = NaN"
| "float64_div _ NaN = NaN"
| "float64_div (Finite a) _ = Finite 0"
| "float64_div PosInf (Finite b) = (if 0 \<le> b then PosInf else NegInf)"
| "float64_div NegInf (Finite b) = (if 0 \<le> b then NegInf else PosInf)"
| "float64_div _ _ = NaN"

fun float64_mul :: "float64 \<Rightarrow> float64 \<Rightarrow> float64" where
  "float64_mul (Finite a) (Finite b) = Finite (round53 (a * b))"
| "float64_mul NaN _ = NaN"
| "float64_mul _ NaN = NaN"
| "float64_mul (Finite a) PosInf = (if a = 0 then NaN else if 0 < a then PosInf else NegInf)"
| "float64_mul (Finite a) NegInf = (if a = 0 then NaN else if 0 < a then NegInf else PosInf)"
| "float64_mul PosInf (Finite b) = (if b = 0 then NaN else if 0 < b then PosInf else NegInf)"
| "float64_mul NegInf (Finite b) = (if b = 0 then NaN else if 0 < b then NegInf else PosInf)"
| "float64_mul PosInf PosInf = PosInf"
| "float64_mul NegInf NegInf = PosInf"
| "float64_mul _ _ = NegInf"

fun math_Ceil :: "float64 \<Rightarrow> float64" where
  "math_Ceil (Finite a) = Finite (of_int \<lceil>a\<rceil>)"
| "math_Ceil x = x"

text \<open>
  The conversion \<open>int(f)\<close> truncates towards zero. Where the value does not fit a 64-bit
  integer, or is an infinity or NaN, the language leaves the result to the implementation:
  the parameter \<open>impl\<close> is that choice.
\<close>

definition go_trunc :: "rat \<Rightarrow> int" where
  "go_trunc a = (if 0 \<le> a then \<lfloor>a\<rfloor> else \<lceil>a\<rceil>)"

fun int_of_float64 :: "(float64 \<Rightarrow> int) \<Rightarrow> float64 \<Rightarrow> int" where
  "int_of_float64 impl (Finite a) =
     (if - (2 ^ 63) \<le> go_trunc a \<and> go_trunc a < 2 ^ 63 then go_trunc a else impl (Finite a))"
| "int_of_float64 impl x = impl x"

text \<open>Line 115: \<open>int(math.Ceil((float64(stage.CompletedTasks) / float64(stage.Tasks)) * 100))\<close>.\<close>

definition gauge_percent :: "(float64 \<Rightarrow> int) \<Rightarrow> Stage \<Rightarrow> int" where
  "gauge_percent impl stage =
     int_of_float64 impl
       (math_Ceil
          (float64_mul
             (float64_div (float64_of_int (stage_CompletedTasks stage))
                          (float64_of_int (stage_Tasks stage)))
             (float64_of_int 100)))"

section \<open>The layout pass (render, lines 58-152)\<close>

definition label_text :: "Stage \<Rightarrow> string" where
  "label_text stage =
     itoa (stage_Index stage) @ '' '' @ stage_Status stage @ '': '' @ stage_Name stage"

text \<open>
  Lines 101-103. The slice expression \<open>labelText[:labelWidth-3]\<close> panics when its bound is
  negative or beyond the length of the string.
\<close>

definition truncate_label :: "int \<Rightarrow> string \<Rightarrow> failure + string" where
  "truncate_label labelWidth labelText =
     (if int (length labelText) > labelWidth
      then (if labelWidth - 3 < 0 \<or> int (length labelText) < labelWidth - 3
            then Inl (PanicSliceBounds (labelWidth - 3) (length labelText))
            else Inr (take (nat (labelWidth - 3)) labelText @ ''...''))
      else Inr labelText)"

definition bar_label :: "Stage \<Rightarrow> string" where
  "bar_label stage =
     (if stage_ActiveTasks stage = 0
      then itoa (stage_CompletedTasks stage) @ ''/'' @ itoa (stage_Tasks stage)
      else itoa (stage_CompletedTasks stage) @ ''/'' @ itoa (stage_Tasks stage)
             @ '' ('' @ itoa (stage_ActiveTasks stage) @ '' active)'')"

text \<open>
  Lines 121-127: \<open>detailsText\<close> starts as the placeholder and the loop overwrites it with the
  first piece that lacks the prefix, then breaks.
\<close>

fun details_loop :: "string \<Rightarrow> string list \<Rightarrow> string" where
  "details_loop detailsText [] = detailsText"
| "details_loop detailsText (text # rest) =
     (if \<not> strings_HasPrefix text ''org.apache'' then text
      else details_loop detailsText rest)"

definition details_text :: "string \<Rightarrow> string" where
  "details_text details = details_loop ''<spark internal>'' (strings_Split_nl details)"

text \<open>
  The body of the loop over the stages (lines 96-138): the three widgets of one stage and
  the new value of \<open>currentInternalHeight\<close>.
\<close>

definition render_stage ::
  "(float64 \<Rightarrow> int) \<Rightarrow> int \<Rightarrow> int \<Rightarrow> int \<Rightarrow> int \<Rightarrow> Stage \<Rightarrow> failure + (drawable list \<times> int)" where
  "render_stage impl width labelWidth currentHeight currentInternalHeight stage =
     (case truncate_label labelWidth (label_text stage) of
        Inl e \<Rightarrow> Inl e
      | Inr labelText \<Rightarrow>
          (let label = Paragraph False labelText ModifierDefault ColorDefault
                         (SetRect 2 (currentHeight + currentInternalHeight) labelWidth
                                  (currentHeight + currentInternalHeight + 1));
               bar = Gauge False (bar_label stage) (gauge_percent impl stage)
                       (SetRect labelWidth (currentHeight + currentInternalHeight) (width - 2)
                                (currentHeight + currentInternalHeight + 1));
               cih1 = currentInternalHeight + 1;
               details = Paragraph False (details_text (stage_Details stage)) ModifierClear ColorRed
                           (SetRect 2 (currentHeight + cih1) (width - 2) (currentHeight + cih1 + 1));
               cih2 = cih1 + 1
           in Inr ([label, bar, details], cih2)))"

fun render_stages ::
  "(float64 \<Rightarrow> int) \<Rightarrow> int \<Rightarrow> int \<Rightarrow> int \<Rightarrow> int \<Rightarrow> Stage list \<Rightarrow> failure + (drawable list \<times> int)" where
  "render_stages impl width labelWidth currentHeight currentInternalHeight [] =
     Inr ([], currentInternalHeight)"
| "render_stages impl width labelWidth currentHeight currentInternalHeight (stage # rest) =
     (case render_stage impl width labelWidth currentHeight currentInternalHeight stage of
        Inl e \<Rightarrow> Inl e
      | Inr (ds, cih) \<Rightarrow>
          (case render_stages impl width labelWidth currentHeight cih rest of
             Inl e \<Rightarrow> Inl e
           | Inr (ds', cih') \<Rightarrow> Inr (ds @ ds', cih')))"

text \<open>
  The body of the loop over the jobs (lines 86-143). The job block is appended before its
  stages and receives its rectangle after them.
\<close>

definition render_job ::
  "(float64 \<Rightarrow> int) \<Rightarrow> int \<Rightarrow> int \<Rightarrow> int \<Rightarrow> int \<Rightarrow> EnrichedJob \<Rightarrow> failure + (drawable list \<times> int)" where
  "render_job impl width labelWidth currentHeight currentInternalHeight job =
     (let initialHeight = currentInternalHeight;
          cih1 = currentInternalHeight + 1
      in case render_stages impl width labelWidth currentHeight cih1 (ej_Stages job) of
           Inl e \<Rightarrow> Inl e
         | Inr (ds, cih2) \<Rightarrow>
             (let cih3 = cih2 + 1;
                  jobBlock = Block True
                               (job_Name (ej_Job job) @ '' (Stage '' @ itoa (job_Index (ej_Job job)) @ '')'')
                               ModifierClear
                               (SetRect 1 (currentHeight + initialHeight) (width - 1) (currentHeight + cih3))
              in Inr (jobBlock # ds, cih3)))"

fun render_jobs ::
  "(float64 \<Rightarrow> int) \<Rightarrow> int \<Rightarrow> int \<Rightarrow> int \<Rightarrow> int \<Rightarrow> EnrichedJob list \<Rightarrow> failure + (drawable list \<times> int)" where
  "render_jobs impl width labelWidth currentHeight currentInternalHeight [] =
     Inr ([], currentInternalHeight)"
| "render_jobs impl width labelWidth currentHeight currentInternalHeight (job # rest) =
     (case render_job impl width labelWidth currentHeight currentInternalHeight job of
        Inl e \<Rightarrow> Inl e
      | Inr (ds, cih) \<Rightarrow>
          (case render_jobs impl width labelWidth currentHeight cih rest of
             Inl e \<Rightarrow> Inl e
           | Inr (ds', cih') \<Rightarrow> Inr (ds @ ds', cih')))"

text \<open>
  The body of the loop over the applications (lines 72-148): the widgets of one application
  and the new value of \<open>currentHeight\<close>.
\<close>

definition render_app ::
  "(float64 \<Rightarrow> int) \<Rightarrow> int \<Rightarrow> int \<Rightarrow> EnrichedApplication \<Rightarrow> failure + (drawable list \<times> int)" where
  "render_app impl width currentHeight app =
     (let labelWidth = go_div width 2;
          currentInternalHeight = 1
      in case render_jobs impl width labelWidth currentHeight currentInternalHeight (ea_Jobs app) of
           Inl e \<Rightarrow> Inl e
         | Inr (ds, cih) \<Rightarrow>
             (let root = Block True
                           (app_Name (ea_App app) @ '' ('' @ app_Id (ea_App app) @ '')'')
                           ModifierBoldUnderline
                           (SetRect 0 currentHeight width (currentHeight + cih + 1))
              in Inr (root # ds, currentHeight + (cih + 1))))"

fun render_apps ::
  "(float64 \<Rightarrow> int) \<Rightarrow> int \<Rightarrow> int \<Rightarrow> EnrichedApplication list \<Rightarrow> failure + drawable list" where
  "render_apps impl width currentHeight [] = Inr []"
| "render_apps impl width currentHeight (app # rest) =
     (case render_app impl width currentHeight app of
        Inl e \<Rightarrow> Inl e
      | Inr (ds, ch) \<Rightarrow>
          (case render_apps impl width ch rest of
             Inl e \<Rightarrow> Inl e
           | Inr ds' \<Rightarrow> Inr (ds @ ds')))"

text \<open>
  \<open>layout\<close> is \<open>render\<close> up to line 148: the list of drawables, or the panic that stops it.
  \<open>render\<close> then clears the screen and draws the list (lines 150-151), so what \<open>render\<close>
  returns here is the new content of the screen. The parameter \<open>height\<close> is not read.
\<close>

definition layout :: "(float64 \<Rightarrow> int) \<Rightarrow> int \<Rightarrow> int \<Rightarrow> State \<Rightarrow> failure + drawable list" where
  "layout impl width height state =
     (let currentHeight = 0;
          clusterInfo = Paragraph False (''Running against Spark on '' @ st_Host state)
                          ModifierBold ColorDefault
                          (SetRect 0 0 width (currentHeight + 1));
          currentHeight = currentHeight + 2
      in case render_apps impl width currentHeight (st_Apps state) of
           Inl e \<Rightarrow> Inl e
         | Inr ds \<Rightarrow> Inr (clusterInfo # ds))"

definition render :: "(float64 \<Rightarrow> int) \<Rightarrow> int \<Rightarrow> int \<Rightarrow> State \<Rightarrow> failure + drawable list" where
  "render impl width height state = layout impl width height state"

section \<open>State aggregation (computeState, lines 154-228)\<close>

text \<open>
  What the program reads from outside is a parameter. \<open>'w\<close> is the state of the network:
  \<open>http_Get\<close> takes a URL and the state and gives the new state with either the error of
  \<open>http.Get\<close>, or a response whose body either fails to be read or is read in full.
  \<open>json.Unmarshal\<close> (one function per target type) gives the decoded list or an error.
  \<open>sort.Slice\<close> (one function per element type) takes the \<open>less\<close> function that the code
  passes. \<open>float_to_int\<close> is the implementation's conversion of a \<open>float64\<close> that no
  \<open>int\<close> represents.
\<close>

record 'w env =
  http_Get :: "string \<Rightarrow> 'w \<Rightarrow> (string + (string + string)) \<times> 'w"
  unmarshal_apps :: "string \<Rightarrow> string + ApplicationIdAndName list"
  unmarshal_jobs :: "string \<Rightarrow> string + Job list"
  unmarshal_stages :: "string \<Rightarrow> string + Stage list"
  sort_Slice_jobs :: "(Job \<Rightarrow> Job \<Rightarrow> bool) \<Rightarrow> Job list \<Rightarrow> Job list"
  sort_Slice_stages :: "(Stage \<Rightarrow> Stage \<Rightarrow> bool) \<Rightarrow> Stage list \<Rightarrow> Stage list"
  float_to_int :: "float64 \<Rightarrow> int"

text \<open>Lines 212-228. Each of the three errors ends the process through \<open>log.Fatalf\<close>.\<close>

definition readApiEndpoint ::
  "'w env \<Rightarrow> (string \<Rightarrow> string + 'a) \<Rightarrow> string \<Rightarrow> string \<Rightarrow> 'w \<Rightarrow> (failure + 'a) \<times> 'w" where
  "readApiEndpoint env unmarshal host endpoint w =
     (case http_Get env (host @ endpoint) w of
        (Inl err, w') \<Rightarrow>
          (Inl (Fatal (''Failed to GET endpoint '' @ endpoint @ '': '' @ err)), w')
      | (Inr resp, w') \<Rightarrow>
          (case resp of
             Inl err \<Rightarrow>
               (Inl (Fatal (''Failed to read body for '' @ endpoint @ '': '' @ err)), w')
           | Inr body \<Rightarrow>
               (case unmarshal body of
                  Inl err \<Rightarrow>
                    (Inl (Fatal (''Failed to parse applications response for '' @ endpoint @ '': '' @ err)), w')
                | Inr out \<Rightarrow> (Inr out, w'))))"

definition getApplications ::
  "'w env \<Rightarrow> string \<Rightarrow> 'w \<Rightarrow> (failure + ApplicationIdAndName list) \<times> 'w" where
  "getApplications env host w =
     readApiEndpoint env (unmarshal_apps env) host ''/api/v1/applications'' w"

definition getJobs ::
  "'w env \<Rightarrow> string \<Rightarrow> ApplicationIdAndName \<Rightarrow> 'w \<Rightarrow> (failure + Job list) \<times> 'w" where
  "getJobs env host app w =
     (let endpoint = ''/api/v1/applications/'' @ app_Id app @ ''/jobs''
      in case readApiEndpoint env (unmarshal_jobs env) host endpoint w of
           (Inl e, w') \<Rightarrow> (Inl e, w')
         | (Inr jobs, w') \<Rightarrow>
             (Inr (sort_Slice_jobs env (\<lambda>a b. job_Index a < job_Index b) jobs), w'))"

definition getStages ::
  "'w env \<Rightarrow> string \<Rightarrow> ApplicationIdAndName \<Rightarrow> 'w \<Rightarrow> (failure + Stage list) \<times> 'w" where
  "getStages env host app w =
     (let endpoint = ''/api/v1/applications/'' @ app_Id app @ ''/stages''
      in case readApiEndpoint env (unmarshal_stages env) host endpoint w of
           (Inl e, w') \<Rightarrow> (Inl e, w')
         | (Inr stages, w') \<Rightarrow>
             (Inr (sort_Slice_stages env (\<lambda>a b. stage_Index a < stage_Index b) stages), w'))"

text \<open>
  Lines 160-163: the map from a stage's index to the stage; a later stage with the same
  index replaces an earlier one. Line 169: reading a key that the map lacks gives the zero
  value of \<open>Stage\<close>.
\<close>

fun build_stagesMap :: "(int \<rightharpoonup> Stage) \<Rightarrow> Stage list \<Rightarrow> (int \<rightharpoonup> Stage)" where
  "build_stagesMap stagesMap [] = stagesMap"
| "build_stagesMap stagesMap (stage # rest) =
     build_stagesMap (stagesMap(stage_Index stage \<mapsto> stage)) rest"

definition zero_Stage :: Stage where
  "zero_Stage =
     \<lparr>stage_Index = 0, stage_Name = [], stage_Details = [], stage_Status = [],
      stage_Tasks = 0, stage_ActiveTasks = 0, stage_CompletedTasks = 0,
      stage_FailedTasks = 0, stage_KilledTasks = 0\<rparr>"

definition map_index :: "(int \<rightharpoonup> Stage) \<Rightarrow> int \<Rightarrow> Stage" where
  "map_index stagesMap k = (case stagesMap k of None \<Rightarrow> zero_Stage | Some stage \<Rightarrow> stage)"

text \<open>Lines 165-176: the jobs of one application with their stages resolved.\<close>

definition enrich_job :: "(int \<rightharpoonup> Stage) \<Rightarrow> Job \<Rightarrow> EnrichedJob" where
  "enrich_job stagesMap job =
     \<lparr>ej_Job = job, ej_Stages = map (map_index stagesMap) (job_Stages job)\<rparr>"

definition enrich_jobs :: "Stage list \<Rightarrow> Job list \<Rightarrow> EnrichedJob list" where
  "enrich_jobs stages jobs =
     (let stagesMap = build_stagesMap Map.empty stages
      in map (enrich_job stagesMap) jobs)"

text \<open>The loop over the applications (lines 157-182).\<close>

fun computeState_apps ::
  "'w env \<Rightarrow> string \<Rightarrow> ApplicationIdAndName list \<Rightarrow> 'w \<Rightarrow> (failure + EnrichedApplication list) \<times> 'w" where
  "computeState_apps env host [] w = (Inr [], w)"
| "computeState_apps env host (app # rest) w =
     (case getJobs env host app w of
        (Inl e, w1) \<Rightarrow> (Inl e, w1)
      | (Inr jobs, w1) \<Rightarrow>
          (case getStages env host app w1 of
             (Inl e, w2) \<Rightarrow> (Inl e, w2)
           | (Inr stages, w2) \<Rightarrow>
               (case computeState_apps env host rest w2 of
                  (Inl e, w3) \<Rightarrow> (Inl e, w3)
                | (Inr appsEnriched, w3) \<Rightarrow>
                    (Inr (\<lparr>ea_App = app, ea_Jobs = enrich_jobs stages jobs\<rparr> # appsEnriched), w3))))"

definition computeState :: "'w env \<Rightarrow> string \<Rightarrow> 'w \<Rightarrow> (failure + State) \<times> 'w" where
  "computeState env host w =
     (case getApplications env host w of
        (Inl e, w1) \<Rightarrow> (Inl e, w1)
      | (Inr apps, w1) \<Rightarrow>
          (case computeState_apps env host apps w1 of
             (Inl e, w2) \<Rightarrow> (Inl e, w2)
           | (Inr appsEnriched, w2) \<Rightarrow>
               (Inr \<lparr>st_Apps = appsEnriched, st_Host = host\<rparr>, w2)))"

section \<open>The event loop (main, lines 36-55)\<close>

text \<open>
  What \<open>main\<close> holds between two events: the host, the snapshot, the terminal size; with
  it, the state of the network and the content of the screen. One step handles one event.
\<close>

datatype payload = Resize int int | OtherPayload

datatype event = UiEvent string payload | Tick

record 'w main_state =
  held_host :: string
  held_state :: State
  termWidth :: int
  termHeight :: int
  world :: 'w
  screen :: "drawable list"

datatype 'w outcome = Running "'w main_state" | Returned | Crashed failure

definition refresh :: "'w env \<Rightarrow> 'w main_state \<Rightarrow> 'w outcome" where
  "refresh env s =
     (case computeState env (held_host s) (world s) of
        (Inl e, w) \<Rightarrow> Crashed e
      | (Inr st, w) \<Rightarrow>
          (case render (float_to_int env) (termWidth s) (termHeight s) st of
             Inl e \<Rightarrow> Crashed e
           | Inr drawables \<Rightarrow> Running (s\<lparr>held_state := st, world := w, screen := drawables\<rparr>)))"

fun main_step :: "'w env \<Rightarrow> event \<Rightarrow> 'w main_state \<Rightarrow> 'w outcome" where
  "main_step env Tick s = refresh env s"
| "main_step env (UiEvent ident p) s =
     (if ident = ''r'' then refresh env s
      else if ident = ''q'' \<or> ident = ''<C-c>'' then Returned
      else if ident = ''<Resize>'' then
        (case p of
           Resize w h \<Rightarrow>
             (case render (float_to_int env) w h (held_state s) of
                Inl e \<Rightarrow> Crashed e
              | Inr drawables \<Rightarrow>
                  Running (s\<lparr>termWidth := w, termHeight := h, screen := drawables\<rparr>))
         | OtherPayload \<Rightarrow> Crashed PanicTypeAssertion)
      else Running s)"

section \<open>Notions used to state the properties\<close>





text \<open>The height of the first drawable of a result (the job block, for \<open>render_job\<close>).\<close>

definition job_block_height :: "failure + (drawable list \<times> int) \<Rightarrow> int option" where
  "job_block_height r = (case r of Inr (d # ds, c) \<Rightarrow> Some (rect_height (GetRect d)) | _ \<Rightarrow> None)"

definition drawables_of :: "failure + (drawable list \<times> int) \<Rightarrow> drawable list" where
  "drawables_of r = (case r of Inr (ds, c) \<Rightarrow> ds | Inl e \<Rightarrow> [])"

text \<open>
  The percent as the specification words it: \<open>ceil(100 * completedTasks / tasks)\<close> in exact
  arithmetic, and 0 when there are no tasks.
\<close>

definition spec_percent :: "Stage \<Rightarrow> int" where
  "spec_percent stage =
     (if stage_Tasks stage = 0 then 0
      else \<lceil>100 * of_int (stage_CompletedTasks stage) / of_int (stage_Tasks stage) :: rat\<rceil>)"

text \<open>
  What a region shows: the text of a paragraph, the caption of a gauge, the title of a
  block; the percents of the gauges of a list of regions; the regions of a layout that
  returned.
\<close>

fun region_text :: "drawable \<Rightarrow> string" where
  "region_text (Paragraph b t m c r) = t"
| "region_text (Gauge b l p r) = l"
| "region_text (Block b t m r) = t"

fun region_percents :: "drawable list \<Rightarrow> int list" where
  "region_percents [] = []"
| "region_percents (Gauge b l p r # ds) = p # region_percents ds"
| "region_percents (d # ds) = region_percents ds"

definition screen_of :: "failure + drawable list \<Rightarrow> drawable list" where
  "screen_of r = (case r of Inr ds \<Rightarrow> ds | Inl e \<Rightarrow> [])"

text \<open>
  The outcome of one request in terms of the calls under it. \<open>fetch_fails\<close>: from the
  state \<open>w\<close> of the network the GET of the URL fails, or the body cannot be read, or the
  body does not decode; \<open>w'\<close> is the state afterwards. \<open>fetch_ok\<close>: all three succeed
  and the body decodes to \<open>v\<close>.
\<close>

definition fetch_fails :: "'w env \<Rightarrow> (string \<Rightarrow> string + 'a) \<Rightarrow> string \<Rightarrow> 'w \<Rightarrow> 'w \<Rightarrow> bool" where
  "fetch_fails env unmarshal url w w' \<longleftrightarrow>
     (\<exists>err. http_Get env url w = (Inl err, w')) \<or>
     (\<exists>err. http_Get env url w = (Inr (Inl err), w')) \<or>
     (\<exists>body err. http_Get env url w = (Inr (Inr body), w') \<and> unmarshal body = Inl err)"

definition fetch_ok :: "'w env \<Rightarrow> (string \<Rightarrow> string + 'a) \<Rightarrow> string \<Rightarrow> 'w \<Rightarrow> 'w \<Rightarrow> 'a \<Rightarrow> bool" where
  "fetch_ok env unmarshal url w w' v \<longleftrightarrow>
     (\<exists>body. http_Get env url w = (Inr (Inr body), w') \<and> unmarshal body = Inr v)"

definition jobs_url :: "string \<Rightarrow> ApplicationIdAndName \<Rightarrow> string" where
  "jobs_url host app = host @ ''/api/v1/applications/'' @ app_Id app @ ''/jobs''"

definition stages_url :: "string \<Rightarrow> ApplicationIdAndName \<Rightarrow> string" where
  "stages_url host app = host @ ''/api/v1/applications/'' @ app_Id app @ ''/stages''"

text \<open>
  What the documentation of \<open>sort.Slice\<close> promises, for a \<open>less\<close> function that compares
  an integer key: the result is in ascending order of the key and holds the elements of
  the argument, each as often as the argument does. It promises nothing on the order of
  elements with equal keys.
\<close>

definition sort_Slice_contract :: "(('a \<Rightarrow> 'a \<Rightarrow> bool) \<Rightarrow> 'a list \<Rightarrow> 'a list) \<Rightarrow> bool" where
  "sort_Slice_contract srt \<longleftrightarrow>
     (\<forall>(key :: 'a \<Rightarrow> int) xs.
        sorted (map key (srt (\<lambda>a b. key a < key b) xs)) \<and>
        mset (srt (\<lambda>a b. key a < key b) xs) = mset xs)"

text \<open>
  The stage that an index resolves to against a list of stages: the last stage of the
  list with that index, and the zero value when the list has none.
\<close>

definition resolve_stage :: "Stage list \<Rightarrow> int \<Rightarrow> Stage" where
  "resolve_stage stages k =
     (case filter (\<lambda>s. stage_Index s = k) stages of
        [] \<Rightarrow> zero_Stage
      | s # rest \<Rightarrow> last (s # rest))"

text \<open>The enriched jobs of a result of \<open>computeState\<close>, application after application.\<close>

definition snapshot_jobs :: "(failure + State) \<times> 'w \<Rightarrow> EnrichedJob list" where
  "snapshot_jobs r = (case fst r of Inr st \<Rightarrow> concat (map ea_Jobs (st_Apps st)) | Inl e \<Rightarrow> [])"

section \<open>Values used in the examples\<close>

text \<open>
  \<open>sort.Slice\<close> sorts a slice of at most six elements by straight insertion: an element
  moves left while it is less than its left neighbour. The examples below sort
  such slices.
\<close>

fun insert_sorted :: "('a \<Rightarrow> 'a \<Rightarrow> bool) \<Rightarrow> 'a \<Rightarrow> 'a list \<Rightarrow> 'a list" where
  "insert_sorted lt x [] = [x]"
| "insert_sorted lt x (y # ys) =
     (if lt x y then x # y # ys else y # insert_sorted lt x ys)"

definition insertion_sort :: "('a \<Rightarrow> 'a \<Rightarrow> bool) \<Rightarrow> 'a list \<Rightarrow> 'a list" where
  "insertion_sort lt xs = foldl (\<lambda>acc x. insert_sorted lt x acc) [] xs"

definition mk_stage :: "int \<Rightarrow> string \<Rightarrow> string \<Rightarrow> int \<Rightarrow> int \<Rightarrow> Stage" where
  "mk_stage i name st completed tasks =
     \<lparr>stage_Index = i, stage_Name = name, stage_Details = [], stage_Status = st,
      stage_Tasks = tasks, stage_ActiveTasks = 0, stage_CompletedTasks = completed,
      stage_FailedTasks = 0, stage_KilledTasks = 0\<rparr>"

text \<open>
  One implementation's conversion of a \<open>float64\<close> that no \<open>int\<close> represents: the smallest
  integer, for every such value.
\<close>

definition impl_min :: "float64 \<Rightarrow> int" where
  "impl_min x = - (2 ^ 63)"

definition ex_stage :: Stage where
  "ex_stage = mk_stage 1 ''collect at Main.scala:12'' ''ACTIVE'' 3 10"

definition ex_job :: EnrichedJob where
  "ex_job = \<lparr>ej_Job = \<lparr>job_Index = 0, job_Name = ''collect'', job_Stages = [1], job_Status = ''RUNNING''\<rparr>,
             ej_Stages = [ex_stage]\<rparr>"

definition ex_app :: EnrichedApplication where
  "ex_app = \<lparr>ea_App = \<lparr>app_Id = ''app-1'', app_Name = ''demo''\<rparr>, ea_Jobs = [ex_job]\<rparr>"

definition ex_state :: State where
  "ex_state = \<lparr>st_Apps = [ex_app], st_Host = ''http://x''\<rparr>"

text \<open>
  A network for the examples. Its state counts the requests made. The host
  \<open>http://x\<close> serves one application with two jobs, fetched in the order job 1, job 0, and
  two stages, fetched in the order stage 2, stage 1; job 0 refers to the stages 2 and 1 in
  that order, job 1 to a stage 3 that the application lacks. Every other URL refuses the
  connection. A body is named by the list it decodes to.
\<close>

definition ex_job0 :: Job where
  "ex_job0 = \<lparr>job_Index = 0, job_Name = ''count'', job_Stages = [2, 1], job_Status = ''RUNNING''\<rparr>"

definition ex_job1 :: Job where
  "ex_job1 = \<lparr>job_Index = 1, job_Name = ''save'', job_Stages = [3], job_Status = ''RUNNING''\<rparr>"

definition ex_application :: ApplicationIdAndName where
  "ex_application = \<lparr>app_Id = ''app-1'', app_Name = ''demo''\<rparr>"

definition ex_http_Get :: "string \<Rightarrow> nat \<Rightarrow> (string + (string + string)) \<times> nat" where
  "ex_http_Get url n =
     (if url = ''http://x/api/v1/applications'' then (Inr (Inr ''apps''), Suc n)
      else if url = ''http://x/api/v1/applications/app-1/jobs'' then (Inr (Inr ''jobs''), Suc n)
      else if url = ''http://x/api/v1/applications/app-1/stages'' then (Inr (Inr ''stages''), Suc n)
      else (Inl ''connection refused'', Suc n))"

definition ex_env :: "nat env" where
  "ex_env =
     \<lparr>http_Get = ex_http_Get,
      unmarshal_apps = (\<lambda>body. if body = ''apps'' then Inr [ex_application] else Inl ''unexpected body''),
      unmarshal_jobs = (\<lambda>body. if body = ''jobs'' then Inr [ex_job1, ex_job0] else Inl ''unexpected body''),
      unmarshal_stages = (\<lambda>body. if body = ''stages''
                            then Inr [mk_stage 2 ''reduce'' ''PENDING'' 0 4, mk_stage 1 ''map'' ''ACTIVE'' 7 25]
                            else Inl ''unexpected body''),
      sort_Slice_jobs = insertion_sort,
      sort_Slice_stages = insertion_sort,
      float_to_int = impl_min\<rparr>"

definition ex_snapshot :: State where
  "ex_snapshot =
     \<lparr>st_Apps =
        [\<lparr>ea_App = ex_application,
          ea_Jobs =
            [\<lparr>ej_Job = ex_job0,
              ej_Stages = [mk_stage 2 ''reduce'' ''PENDING'' 0 4, mk_stage 1 ''map'' ''ACTIVE'' 7 25]\<rparr>,
             \<lparr>ej_Job = ex_job1, ej_Stages = [zero_Stage]\<rparr>]\<rparr>],
      st_Host = ''http://x''\<rparr>"

definition ex_main_state :: "nat main_state" where
  "ex_main_state =
     \<lparr>held_host = ''http://x'', held_state = ex_state, termWidth = 120, termHeight = 40, world = 3, screen = []\<rparr>"

text \<open>The example snapshot \<open>ex_state\<close> laid out at width 80.\<close>

definition ex_screen :: "drawable list" where
  "ex_screen =
     [Paragraph False ''Running against Spark on http://x'' ModifierBold ColorDefault (SetRect 0 0 80 1),
      Block True ''demo (app-1)'' ModifierBoldUnderline (SetRect 0 2 80 8),
      Block True ''collect (Stage 0)'' ModifierClear (SetRect 1 3 79 7),
      Paragraph False ''1 ACTIVE: collect at Main.scala:12'' ModifierDefault ColorDefault (SetRect 2 4 40 5),
      Gauge False ''3/10'' 30 (SetRect 40 4 78 5),
      Paragraph False [] ModifierClear ColorRed (SetRect 2 5 78 6)]"

text \<open>
  \<open>sort.Slice\<close> as the Go releases up to 1.18 implement it for a slice of at most twelve
  elements (later releases sort such a slice by insertion alone): one pass that compares
  each element from position 6 on with the element six places before it and swaps the
  two when the later one is less, then the insertion sort.
\<close>

fun swap_pairs :: "('a \<Rightarrow> 'a \<Rightarrow> bool) \<Rightarrow> 'a list \<Rightarrow> 'a list \<Rightarrow> 'a list \<times> 'a list" where
  "swap_pairs lt (x # xs) (y # ys) =
     (case swap_pairs lt xs ys of
        (xs', ys') \<Rightarrow> if lt y x then (y # xs', x # ys') else (x # xs', y # ys'))"
| "swap_pairs lt xs [] = (xs, [])"
| "swap_pairs lt [] ys = ([], ys)"

definition gap6_pass :: "('a \<Rightarrow> 'a \<Rightarrow> bool) \<Rightarrow> 'a list \<Rightarrow> 'a list" where
  "gap6_pass lt xs = (case swap_pairs lt (take 6 xs) (drop 6 xs) of (front, back) \<Rightarrow> front @ back)"

definition sort_Slice_short :: "('a \<Rightarrow> 'a \<Rightarrow> bool) \<Rightarrow> 'a list \<Rightarrow> 'a list" where
  "sort_Slice_short lt xs = insertion_sort lt (gap6_pass lt xs)"

text \<open>
  The same host with that \<open>sort.Slice\<close> and seven jobs, of which the first and the fourth
  fetched, \<open>a\<close> and \<open>b\<close>, both have the index 2; \<open>a\<close> refers to the stages 2 and 1.
\<close>

definition mk_job :: "int \<Rightarrow> string \<Rightarrow> int list \<Rightarrow> Job" where
  "mk_job i name refs = \<lparr>job_Index = i, job_Name = name, job_Stages = refs, job_Status = ''RUNNING''\<rparr>"

definition ex_jobs_ties :: "Job list" where
  "ex_jobs_ties =
     [mk_job 2 ''a'' [2, 1], mk_job 3 ''c'' [], mk_job 4 ''d'' [], mk_job 2 ''b'' [],
      mk_job 5 ''e'' [], mk_job 6 ''f'' [], mk_job 1 ''g'' []]"

definition ex_env_ties :: "nat env" where
  "ex_env_ties =
     ex_env\<lparr>unmarshal_jobs := (\<lambda>body. if body = ''jobs'' then Inr ex_jobs_ties else Inl ''unexpected body''),
            sort_Slice_jobs := sort_Slice_short,
            sort_Slice_stages := sort_Slice_short\<rparr>"

text \<open>A stage whose details are a stack trace of two lines, the first inside the framework.\<close>

definition ex_stage_trace :: Stage where
  "ex_stage_trace =
     (mk_stage 1 ''map'' ''ACTIVE'' 3 10)
       \<lparr>stage_Details := ''org.apache.spark.rdd.RDD.collect(RDD.scala:1030)'' @ [CHR 0x0A] @ ''Main.scala:12''\<rparr>"

section \<open>Label truncation and detail text\<close>

lemma go_div_2_nonneg: "0 \<le> w \<Longrightarrow> go_div w 2 = w div 2"
  by (simp add: go_div_def sgn_if)

lemma truncate_label_ok:
  assumes "3 \<le> labelWidth"
  shows "truncate_label labelWidth t =
           Inr (if labelWidth < int (length t) then take (nat (labelWidth - 3)) t @ ''...'' else t)"
  using assms by (auto simp: truncate_label_def)

lemma details_loop_all: "\<forall>l\<in>set ls. strings_HasPrefix l ''org.apache'' \<Longrightarrow> details_loop d ls = d"
  by (induction ls) auto

lemma details_loop_found:
  "\<not> (\<forall>l\<in>set ls. strings_HasPrefix l ''org.apache'') \<Longrightarrow>
     details_loop d ls \<in> set ls \<and> \<not> strings_HasPrefix (details_loop d ls) ''org.apache''"
  by (induction ls) auto

lemma details_loop_indep:
  "\<not> (\<forall>l\<in>set ls. strings_HasPrefix l ''org.apache'') \<Longrightarrow> details_loop d ls = details_loop d' ls"
  by (induction ls) auto

lemma details_text_empty:
  "strings_Split_nl [] = [[]] \<and> \<not> strings_HasPrefix [] ''org.apache'' \<and> details_text [] = [] \<and>
   ((\<forall>l\<in>set (strings_Split_nl d). strings_HasPrefix l ''org.apache'') \<longrightarrow>
       d \<noteq> [] \<and> details_text d = ''<spark internal>'') \<and>
   ((\<exists>l\<in>set (strings_Split_nl d). \<not> strings_HasPrefix l ''org.apache'') \<longrightarrow>
       details_text d \<in> set (strings_Split_nl d) \<and>
       \<not> strings_HasPrefix (details_text d) ''org.apache'' \<and>
       details_loop other (strings_Split_nl d) = details_text d)"
proof -
  have a: "strings_Split_nl [] = [[]]" by simp
  have b: "\<not> strings_HasPrefix [] ''org.apache''" by (simp add: strings_HasPrefix_def)
  have c: "details_text [] = []" by (simp add: details_text_def strings_HasPrefix_def)
  have d: "(\<forall>l\<in>set (strings_Split_nl d). strings_HasPrefix l ''org.apache'') \<longrightarrow>
       d \<noteq> [] \<and> details_text d = ''<spark internal>''"
  proof
    assume h: "\<forall>l\<in>set (strings_Split_nl d). strings_HasPrefix l ''org.apache''"
    have "d \<noteq> []" using h b by auto
    moreover have "details_text d = ''<spark internal>''"
      unfolding details_text_def by (rule details_loop_all [OF h])
    ultimately show "d \<noteq> [] \<and> details_text d = ''<spark internal>''" by simp
  qed
  have e: "(\<exists>l\<in>set (strings_Split_nl d). \<not> strings_HasPrefix l ''org.apache'') \<longrightarrow>
       details_text d \<in> set (strings_Split_nl d) \<and>
       \<not> strings_HasPrefix (details_text d) ''org.apache'' \<and>
       details_loop other (strings_Split_nl d) = details_text d"
    unfolding details_text_def
    using details_loop_found [of "strings_Split_nl d" "''<spark internal>''"]
      details_loop_indep [of "strings_Split_nl d" other "''<spark internal>''"]
    by blast
  show ?thesis using a b c d e by blast
qed

section \<open>Rows of a job\<close>

lemma label_text_length: "3 \<le> length (label_text stage)"
  by (simp add: label_text_def)

lemma truncate_label_Inr: "truncate_label lw t = Inr r \<Longrightarrow> 3 \<le> length t \<Longrightarrow> 3 \<le> lw"
  by (auto simp: truncate_label_def split: if_splits)

lemma render_stage_Inr:
  assumes "render_stage impl width lw ch cih stage = Inr (ds, cih')"
  shows "cih' = cih + 2 \<and> 3 \<le> lw \<and>
         (\<exists>lt bl pc dt.
            ds = [Paragraph False lt ModifierDefault ColorDefault (SetRect 2 (ch + cih) lw (ch + cih + 1)),
                  Gauge False bl pc (SetRect lw (ch + cih) (width - 2) (ch + cih + 1)),
                  Paragraph False dt ModifierClear ColorRed (SetRect 2 (ch + cih + 1) (width - 2) (ch + cih + 2))])"
proof -
  from assms obtain lt where lt: "truncate_label lw (label_text stage) = Inr lt"
    by (auto simp: render_stage_def split: sum.splits)
  from truncate_label_Inr [OF lt] label_text_length have "3 \<le> lw" by simp
  with assms lt show ?thesis
    by (auto simp: render_stage_def Let_def add.assoc)
qed

lemma render_stages_cursor:
  "render_stages impl width lw ch cih stages = Inr (ds, cih') \<Longrightarrow>
     cih' = cih + 2 * int (length stages) \<and> length ds = 3 * length stages"
proof (induction stages arbitrary: cih ds cih')
  case Nil
  then show ?case by simp
next
  case (Cons stage rest)
  from Cons.prems obtain ds1 c1 ds2 where
    s1: "render_stage impl width lw ch cih stage = Inr (ds1, c1)" and
    s2: "render_stages impl width lw ch c1 rest = Inr (ds2, cih')" and
    ds: "ds = ds1 @ ds2"
    by (auto split: sum.splits prod.splits)
  from render_stage_Inr [OF s1] have "c1 = cih + 2" "length ds1 = 3" by auto
  with Cons.IH [OF s2] ds show ?case by simp
qed


lemma render_stages_rows:
  "render_stages impl width lw ch cih stages = Inr (ds, cih') \<Longrightarrow> k < length stages \<Longrightarrow>
     ry1 (GetRect (ds ! (3 * k))) = ch + cih + 2 * int k \<and>
     ry2 (GetRect (ds ! (3 * k))) = ch + cih + 2 * int k + 1 \<and>
     ry1 (GetRect (ds ! (3 * k + 1))) = ch + cih + 2 * int k \<and>
     ry2 (GetRect (ds ! (3 * k + 1))) = ch + cih + 2 * int k + 1 \<and>
     ry1 (GetRect (ds ! (3 * k + 2))) = ch + cih + 2 * int k + 1 \<and>
     ry2 (GetRect (ds ! (3 * k + 2))) = ch + cih + 2 * int k + 2"
proof (induction stages arbitrary: cih ds cih' k)
  case Nil
  then show ?case by simp
next
  case (Cons stage rest)
  from Cons.prems(1) obtain ds1 c1 ds2 where
    s1: "render_stage impl width lw ch cih stage = Inr (ds1, c1)" and
    s2: "render_stages impl width lw ch c1 rest = Inr (ds2, cih')" and
    ds: "ds = ds1 @ ds2"
    by (auto split: sum.splits prod.splits)
  from render_stage_Inr [OF s1] obtain lt bl pc dt where c1: "c1 = cih + 2" and
    ds1: "ds1 = [Paragraph False lt ModifierDefault ColorDefault (SetRect 2 (ch + cih) lw (ch + cih + 1)),
                  Gauge False bl pc (SetRect lw (ch + cih) (width - 2) (ch + cih + 1)),
                  Paragraph False dt ModifierClear ColorRed (SetRect 2 (ch + cih + 1) (width - 2) (ch + cih + 2))]"
    by auto
  show ?case
  proof (cases k)
    case 0
    then show ?thesis by (simp add: ds ds1 SetRect_def)
  next
    case (Suc j)
    with Cons.prems(2) have j: "j < length rest" by simp
    have i0: "(ds1 @ ds2) ! (3 * Suc j) = ds2 ! (3 * j)"
      and i1: "(ds1 @ ds2) ! (3 * Suc j + 1) = ds2 ! (3 * j + 1)"
      and i2: "(ds1 @ ds2) ! (3 * Suc j + 2) = ds2 ! (3 * j + 2)"
      by (simp_all add: ds1 nth_append)
    from Cons.IH [OF s2 j] show ?thesis
      unfolding ds Suc i0 i1 i2 c1 by simp
  qed
qed

lemma render_job_Inr:
  assumes "render_job impl width lw ch cih job = Inr (ds, cih')"
  shows "\<exists>sds c title. render_stages impl width lw ch (cih + 1) (ej_Stages job) = Inr (sds, c) \<and>
           cih' = c + 1 \<and>
           ds = Block True title ModifierClear (SetRect 1 (ch + cih) (width - 1) (ch + cih')) # sds"
  using assms by (auto simp: render_job_def Let_def split: sum.splits prod.splits)

text \<open>
  Claim C3, amended. A job that renders contributes its block followed by three widgets
  per stage. The three widgets of a stage take two rows, not three: the label and the
  gauge share a row, the detail line is on the next one, and each is one row high. The
  height of the job block is 1 (top border) + 2 * stage count + 1 (spacing), and so is the
  advance of the cursor.
\<close>

theorem job_block_height:
  assumes "render_job impl width lw ch cih job = Inr (ds, cih')"
  shows "length ds = 1 + 3 * length (ej_Stages job) \<and>
         is_block (hd ds) \<and>
         rect_height (GetRect (hd ds)) = 1 + 2 * int (length (ej_Stages job)) + 1 \<and>
         cih' = cih + (1 + 2 * int (length (ej_Stages job)) + 1) \<and>
         (\<forall>k<length (ej_Stages job).
            ry1 (GetRect (ds ! (1 + 3 * k))) = ry1 (GetRect (hd ds)) + 1 + 2 * int k \<and>
            ry1 (GetRect (ds ! (1 + 3 * k + 1))) = ry1 (GetRect (hd ds)) + 1 + 2 * int k \<and>
            ry1 (GetRect (ds ! (1 + 3 * k + 2))) = ry1 (GetRect (hd ds)) + 1 + 2 * int k + 1 \<and>
            rect_height (GetRect (ds ! (1 + 3 * k))) = 1 \<and>
            rect_height (GetRect (ds ! (1 + 3 * k + 1))) = 1 \<and>
            rect_height (GetRect (ds ! (1 + 3 * k + 2))) = 1)"
proof -
  from render_job_Inr [OF assms] obtain sds c title where
    st: "render_stages impl width lw ch (cih + 1) (ej_Stages job) = Inr (sds, c)" and
    c: "cih' = c + 1" and
    ds: "ds = Block True title ModifierClear (SetRect 1 (ch + cih) (width - 1) (ch + cih')) # sds"
    by blast
  from render_stages_cursor [OF st] have cur: "c = cih + 1 + 2 * int (length (ej_Stages job))"
    and len: "length sds = 3 * length (ej_Stages job)" by simp_all
  have rows: "\<forall>k<length (ej_Stages job).
            ry1 (GetRect (ds ! (1 + 3 * k))) = ry1 (GetRect (hd ds)) + 1 + 2 * int k \<and>
            ry1 (GetRect (ds ! (1 + 3 * k + 1))) = ry1 (GetRect (hd ds)) + 1 + 2 * int k \<and>
            ry1 (GetRect (ds ! (1 + 3 * k + 2))) = ry1 (GetRect (hd ds)) + 1 + 2 * int k + 1 \<and>
            rect_height (GetRect (ds ! (1 + 3 * k))) = 1 \<and>
            rect_height (GetRect (ds ! (1 + 3 * k + 1))) = 1 \<and>
            rect_height (GetRect (ds ! (1 + 3 * k + 2))) = 1"
  proof (intro allI impI)
    fix k assume "k < length (ej_Stages job)"
    from render_stages_rows [OF st this] show
      "ry1 (GetRect (ds ! (1 + 3 * k))) = ry1 (GetRect (hd ds)) + 1 + 2 * int k \<and>
            ry1 (GetRect (ds ! (1 + 3 * k + 1))) = ry1 (GetRect (hd ds)) + 1 + 2 * int k \<and>
            ry1 (GetRect (ds ! (1 + 3 * k + 2))) = ry1 (GetRect (hd ds)) + 1 + 2 * int k + 1 \<and>
            rect_height (GetRect (ds ! (1 + 3 * k))) = 1 \<and>
            rect_height (GetRect (ds ! (1 + 3 * k + 1))) = 1 \<and>
            rect_height (GetRect (ds ! (1 + 3 * k + 2))) = 1"
      by (simp add: ds SetRect_def rect_height_def)
  qed
  have "length ds = 1 + 3 * length (ej_Stages job)" using ds len by simp
  moreover have "is_block (hd ds)" using ds by simp
  moreover have "rect_height (GetRect (hd ds)) = 1 + 2 * int (length (ej_Stages job)) + 1"
    using ds c cur by (simp add: rect_height_def SetRect_def)
  moreover have "cih' = cih + (1 + 2 * int (length (ej_Stages job)) + 1)"
    using c cur by simp
  ultimately show ?thesis using rows by blast
qed

section \<open>Regions of an application\<close>














section \<open>The example snapshot laid out\<close>

lemma itoa_small: "itoa 0 = ''0''" "itoa 1 = ''1''" "itoa 3 = ''3''" "itoa 10 = ''10''"
  by (simp_all add: itoa_def digit_char_def)

lemma ex_label: "label_text ex_stage = ''1 ACTIVE: collect at Main.scala:12''"
  by (simp add: label_text_def ex_stage_def mk_stage_def itoa_small)

lemma ex_render_job:
  "render_job impl 80 40 2 1 ex_job =
     Inr ([Block True ''collect (Stage 0)'' ModifierClear (SetRect 1 3 79 7),
           Paragraph False ''1 ACTIVE: collect at Main.scala:12'' ModifierDefault ColorDefault (SetRect 2 4 40 5),
           Gauge False ''3/10'' (gauge_percent impl ex_stage) (SetRect 40 4 78 5),
           Paragraph False [] ModifierClear ColorRed (SetRect 2 5 78 6)], 5)"
  by (simp add: render_job_def render_stage_def ex_job_def ex_label truncate_label_def Let_def itoa_small
        bar_label_def details_text_def strings_HasPrefix_def)
     (simp add: ex_stage_def mk_stage_def itoa_small strings_HasPrefix_def)

text \<open>
  The claim as stated gives a job with one stage the height 1 + 3 * 1 + 1 = 5; its block
  is 4 rows high.
\<close>

theorem job_block_height_counterexample:
  "job_block_height (render_job impl_min 80 40 2 1 ex_job) = Some 4 \<and>
   1 + 3 * int (length (ej_Stages ex_job)) + 1 = 5"
  by (simp add: ex_render_job job_block_height_def rect_height_def SetRect_def) (simp add: ex_job_def)

theorem job_block_height_witness:
  "job_block_height (render_job impl_min 80 40 2 1 ex_job) = Some (1 + 2 * int (length (ej_Stages ex_job)) + 1)"
  using job_block_height [OF ex_render_job [of impl_min]]
  by (simp add: ex_render_job job_block_height_def)

lemma ex_render_app:
  "render_app impl 80 2 ex_app =
     Inr ([Block True ''demo (app-1)'' ModifierBoldUnderline (SetRect 0 2 80 8),
           Block True ''collect (Stage 0)'' ModifierClear (SetRect 1 3 79 7),
           Paragraph False ''1 ACTIVE: collect at Main.scala:12'' ModifierDefault ColorDefault (SetRect 2 4 40 5),
           Gauge False ''3/10'' (gauge_percent impl ex_stage) (SetRect 40 4 78 5),
           Paragraph False [] ModifierClear ColorRed (SetRect 2 5 78 6)], 8)"
  by (simp add: render_app_def ex_app_def go_div_def ex_render_job)


text \<open>
  Claim C2. At width 4 the layout of a snapshot with one stage stops with the panic of the
  slice expression: \<open>labelWidth\<close> is 2 and the bound \<open>labelWidth - 3\<close> is negative.
\<close>

theorem layout_small_width_panics:
  "layout impl 4 height ex_state = Inl (PanicSliceBounds (- 1) 34)"
  by (simp add: layout_def ex_state_def render_app_def ex_app_def go_div_def render_job_def ex_job_def
        render_stage_def ex_label truncate_label_def)

section \<open>Where the layout returns\<close>

text \<open>
  A stage cannot be drawn when \<open>labelWidth\<close> is below 3, since a label text has at least
  three bytes. From width 6 on the layout returns for every snapshot, and a snapshot
  without stages is laid out at every width.
\<close>

lemma render_stage_narrow:
  "lw < 3 \<Longrightarrow> render_stage impl width lw ch cih stage = Inl (PanicSliceBounds (lw - 3) (length (label_text stage)))"
  using label_text_length [of stage] by (simp add: render_stage_def truncate_label_def)

lemma render_stage_wide:
  "3 \<le> lw \<Longrightarrow> \<exists>ds. render_stage impl width lw ch cih stage = Inr (ds, cih + 2)"
  by (simp add: render_stage_def truncate_label_ok Let_def)

lemma render_stages_wide:
  "3 \<le> lw \<Longrightarrow> \<exists>ds c. render_stages impl width lw ch cih stages = Inr (ds, c)"
proof (induction stages arbitrary: cih)
  case Nil
  then show ?case by simp
next
  case (Cons stage rest)
  from render_stage_wide [OF Cons.prems] obtain ds where
    "render_stage impl width lw ch cih stage = Inr (ds, cih + 2)" by blast
  moreover from Cons.IH [OF Cons.prems] obtain ds' c where
    "render_stages impl width lw ch (cih + 2) rest = Inr (ds', c)" by blast
  ultimately show ?case by simp
qed

lemma render_jobs_wide:
  "3 \<le> lw \<Longrightarrow> \<exists>ds c. render_jobs impl width lw ch cih jobs = Inr (ds, c)"
proof (induction jobs arbitrary: cih)
  case Nil
  then show ?case by simp
next
  case (Cons job rest)
  from render_stages_wide [OF Cons.prems] obtain sds c where
    "render_stages impl width lw ch (cih + 1) (ej_Stages job) = Inr (sds, c)" by blast
  then obtain ds where j: "render_job impl width lw ch cih job = Inr (ds, c + 1)"
    by (simp add: render_job_def Let_def)
  from Cons.IH [OF Cons.prems] obtain ds' c' where
    "render_jobs impl width lw ch (c + 1) rest = Inr (ds', c')" by blast
  with j show ?case by simp
qed

lemma render_apps_wide:
  "6 \<le> width \<Longrightarrow> \<exists>ds. render_apps impl width ch apps = Inr ds"
proof (induction apps arbitrary: ch)
  case Nil
  then show ?case by simp
next
  case (Cons app rest)
  from Cons.prems have lw: "3 \<le> go_div width 2" by (simp add: go_div_2_nonneg)
  from render_jobs_wide [OF lw] obtain jds c where
    "render_jobs impl width (go_div width 2) ch 1 (ea_Jobs app) = Inr (jds, c)" by blast
  then obtain ds where a: "render_app impl width ch app = Inr (ds, ch + (c + 1))"
    by (simp add: render_app_def Let_def)
  from Cons.IH [OF Cons.prems] obtain ds' where
    "render_apps impl width (ch + (c + 1)) rest = Inr ds'" by blast
  with a show ?case by simp
qed

lemma layout_wide: "6 \<le> width \<Longrightarrow> \<exists>ds. layout impl width height state = Inr ds"
  using render_apps_wide [of width impl 2 "st_Apps state"] by (auto simp: layout_def)

lemma layout_no_stage:
  "\<forall>app\<in>set (st_Apps state). \<forall>job\<in>set (ea_Jobs app). ej_Stages job = [] \<Longrightarrow>
     \<exists>ds. layout impl width height state = Inr ds"
proof -
  assume ns: "\<forall>app\<in>set (st_Apps state). \<forall>job\<in>set (ea_Jobs app). ej_Stages job = []"
  have jobs: "\<forall>job\<in>set jobs. ej_Stages job = [] \<Longrightarrow>
      \<exists>ds c. render_jobs impl width lw ch cih jobs = Inr (ds, c)" for jobs lw ch cih
  proof (induction jobs arbitrary: cih)
    case Nil
    then show ?case by simp
  next
    case (Cons job rest)
    then have "ej_Stages job = []" by simp
    then obtain ds where j: "render_job impl width lw ch cih job = Inr (ds, cih + 1 + 1)"
      by (simp add: render_job_def Let_def)
    from Cons obtain ds' c' where
      "render_jobs impl width lw ch (cih + 1 + 1) rest = Inr (ds', c')" by fastforce
    with j show ?case by simp
  qed
  have apps: "\<forall>app\<in>set apps. \<forall>job\<in>set (ea_Jobs app). ej_Stages job = [] \<Longrightarrow>
      \<exists>ds. render_apps impl width ch apps = Inr ds" for apps ch
  proof (induction apps arbitrary: ch)
    case Nil
    then show ?case by simp
  next
    case (Cons app rest)
    then have "\<forall>job\<in>set (ea_Jobs app). ej_Stages job = []" by simp
    from jobs [OF this] obtain jds c where
      "render_jobs impl width (go_div width 2) ch 1 (ea_Jobs app) = Inr (jds, c)" by blast
    then obtain ds where a: "render_app impl width ch app = Inr (ds, ch + (c + 1))"
      by (simp add: render_app_def Let_def)
    from Cons obtain ds' where
      "render_apps impl width (ch + (c + 1)) rest = Inr ds'" by fastforce
    with a show ?case by simp
  qed
  from apps [OF ns, of 2] show ?thesis by (auto simp: layout_def)
qed

section \<open>Stage resolution\<close>

lemma build_stagesMap_other:
  "k \<notin> stage_Index ` set stages \<Longrightarrow> build_stagesMap m stages k = m k"
  by (induction stages arbitrary: m) auto

lemma build_stagesMap_keys:
  "\<forall>k s. m k = Some s \<longrightarrow> stage_Index s = k \<Longrightarrow>
     build_stagesMap m stages k = Some s \<Longrightarrow> stage_Index s = k"
proof (induction stages arbitrary: m)
  case Nil
  then show ?case by simp
next
  case (Cons a stages)
  have inv: "\<forall>k s. (m(stage_Index a \<mapsto> a)) k = Some s \<longrightarrow> stage_Index s = k"
    using Cons.prems(1) by auto
  from Cons.prems(2) have "build_stagesMap (m(stage_Index a \<mapsto> a)) stages k = Some s" by simp
  from Cons.IH [OF inv this] show ?case .
qed

text \<open>
  Claim C6, amended. Resolution is a total function. A reference to an index that the
  application's stages lack resolves to the zero value of \<open>Stage\<close>, the same for every
  such index, in the map and in the enriched job at the position of the reference. The
  zero value has the index 0, empty name, status and details, and no tasks: nothing in
  it marks the reference as unresolved.
\<close>

theorem unknown_stage_ref:
  assumes "k \<notin> stage_Index ` set stages"
  shows "map_index (build_stagesMap Map.empty stages) k = zero_Stage \<and>
         (\<forall>job\<in>set jobs. \<forall>i<length (job_Stages job). job_Stages job ! i = k \<longrightarrow>
            (\<exists>ej\<in>set (enrich_jobs stages jobs). ej_Job ej = job \<and> ej_Stages ej ! i = zero_Stage)) \<and>
         stage_Index zero_Stage = 0 \<and> stage_Name zero_Stage = [] \<and> stage_Status zero_Stage = [] \<and>
         stage_Details zero_Stage = [] \<and> stage_Tasks zero_Stage = 0"
proof -
  have a: "map_index (build_stagesMap Map.empty stages) k = zero_Stage"
    using build_stagesMap_other [OF assms, of Map.empty] by (simp add: map_index_def)
  have b: "\<forall>job\<in>set jobs. \<forall>i<length (job_Stages job). job_Stages job ! i = k \<longrightarrow>
            (\<exists>ej\<in>set (enrich_jobs stages jobs). ej_Job ej = job \<and> ej_Stages ej ! i = zero_Stage)"
  proof (intro ballI allI impI)
    fix job i assume j: "job \<in> set jobs" and i: "i < length (job_Stages job)" and k: "job_Stages job ! i = k"
    let ?ej = "enrich_job (build_stagesMap Map.empty stages) job"
    have "?ej \<in> set (enrich_jobs stages jobs)" using j by (simp add: enrich_jobs_def)
    moreover have "ej_Job ?ej = job" by (simp add: enrich_job_def)
    moreover have "ej_Stages ?ej ! i = zero_Stage" using i k a by (simp add: enrich_job_def)
    ultimately show "\<exists>ej\<in>set (enrich_jobs stages jobs). ej_Job ej = job \<and> ej_Stages ej ! i = zero_Stage"
      by blast
  qed
  show ?thesis using a b by (simp add: zero_Stage_def)
qed

theorem unknown_stage_ref_witness:
  "map_index (build_stagesMap Map.empty [mk_stage 2 ''reduce'' ''PENDING'' 0 4, mk_stage 1 ''map'' ''ACTIVE'' 7 25]) 7
     = zero_Stage"
  using unknown_stage_ref [of 7 "[mk_stage 2 ''reduce'' ''PENDING'' 0 4, mk_stage 1 ''map'' ''ACTIVE'' 7 25]" "[]"]
  by (simp add: mk_stage_def)

text \<open>
  The claim as stated has the placeholder's name and status flagged as unresolved. They
  are the empty strings, and the placeholder for the absent stage 7 equals what the
  present stage 0 resolves to when that stage has empty fields.
\<close>

theorem unknown_stage_ref_counterexample:
  "stage_Name (map_index (build_stagesMap Map.empty []) 7) = [] \<and>
   stage_Status (map_index (build_stagesMap Map.empty []) 7) = [] \<and>
   map_index (build_stagesMap Map.empty []) 7 =
     map_index (build_stagesMap Map.empty [mk_stage 0 [] [] 0 0]) 0"
  by (simp add: map_index_def zero_Stage_def mk_stage_def)

section \<open>Aggregation\<close>

lemma readApiEndpoint_Inl:
  "readApiEndpoint env um host endpoint w = (Inl e, w') \<Longrightarrow> \<exists>msg. e = Fatal msg"
  by (auto simp: readApiEndpoint_def split: prod.splits sum.splits)

lemma getApplications_Inl: "getApplications env host w = (Inl e, w') \<Longrightarrow> \<exists>msg. e = Fatal msg"
  unfolding getApplications_def by (rule readApiEndpoint_Inl)

lemma getJobs_Inl: "getJobs env host app w = (Inl e, w') \<Longrightarrow> \<exists>msg. e = Fatal msg"
  by (auto simp: getJobs_def Let_def split: prod.splits sum.splits dest: readApiEndpoint_Inl)

lemma getStages_Inl: "getStages env host app w = (Inl e, w') \<Longrightarrow> \<exists>msg. e = Fatal msg"
  by (auto simp: getStages_def Let_def split: prod.splits sum.splits dest: readApiEndpoint_Inl)

lemma getJobs_Inr:
  "getJobs env host app w = (Inr jobs, w') \<Longrightarrow>
     \<exists>raw. jobs = sort_Slice_jobs env (\<lambda>a b. job_Index a < job_Index b) raw"
  by (auto simp: getJobs_def Let_def split: prod.splits sum.splits)

lemma computeState_apps_Inr:
  "computeState_apps env host apps w = (Inr eas, w') \<Longrightarrow>
     map ea_App eas = apps \<and>
     (\<forall>ea\<in>set eas. \<exists>wa wb wc jobs stages.
         getJobs env host (ea_App ea) wa = (Inr jobs, wb) \<and>
         getStages env host (ea_App ea) wb = (Inr stages, wc) \<and>
         ea_Jobs ea = enrich_jobs stages jobs)"
proof (induction apps arbitrary: w eas)
  case Nil
  then show ?case by simp
next
  case (Cons app rest)
  from Cons.prems obtain jobs w1 stages w2 eas' where
    j: "getJobs env host app w = (Inr jobs, w1)" and
    s: "getStages env host app w1 = (Inr stages, w2)" and
    r: "computeState_apps env host rest w2 = (Inr eas', w')" and
    e: "eas = \<lparr>ea_App = app, ea_Jobs = enrich_jobs stages jobs\<rparr> # eas'"
    by (auto split: prod.splits sum.splits)
  have "\<exists>wa wb wc jobs' stages'.
         getJobs env host app wa = (Inr jobs', wb) \<and>
         getStages env host app wb = (Inr stages', wc) \<and>
         enrich_jobs stages jobs = enrich_jobs stages' jobs'"
    using j s by blast
  with Cons.IH [OF r] show ?case unfolding e by simp
qed

lemma computeState_apps_Inl:
  "computeState_apps env host apps w = (Inl e, w') \<Longrightarrow>
     \<exists>app\<in>set apps. \<exists>wa. getJobs env host app wa = (Inl e, w') \<or> getStages env host app wa = (Inl e, w')"
proof (induction apps arbitrary: w)
  case Nil
  then show ?case by simp
next
  case (Cons app rest)
  show ?case
  proof (cases "getJobs env host app w")
    case (Pair r1 w1)
    show ?thesis
    proof (cases r1)
      case (Inl e1)
      with Pair Cons.prems show ?thesis by auto
    next
      case (Inr jobs)
      show ?thesis
      proof (cases "getStages env host app w1")
        case p2: (Pair r2 w2)
        show ?thesis
        proof (cases r2)
          case (Inl e2)
          with Pair Inr p2 Cons.prems show ?thesis by auto
        next
          case i2: (Inr stages)
          with Pair Inr p2 Cons.prems have "computeState_apps env host rest w2 = (Inl e, w')"
            by (auto split: prod.splits sum.splits)
          from Cons.IH [OF this] show ?thesis by auto
        qed
      qed
    qed
  qed
qed

lemma computeState_apps_prefix:
  "computeState_apps env host pre w = (Inr eas, w0) \<Longrightarrow>
     computeState_apps env host (pre @ rest) w =
       (case computeState_apps env host rest w0 of
          (Inl e, w') \<Rightarrow> (Inl e, w')
        | (Inr eas', w') \<Rightarrow> (Inr (eas @ eas'), w'))"
proof (induction pre arbitrary: w eas)
  case Nil
  then show ?case by (auto split: prod.splits sum.splits)
next
  case (Cons app pre)
  from Cons.prems obtain jobs w1 stages w2 eas' where
    j: "getJobs env host app w = (Inr jobs, w1)" and
    s: "getStages env host app w1 = (Inr stages, w2)" and
    r: "computeState_apps env host pre w2 = (Inr eas', w0)" and
    e: "eas = \<lparr>ea_App = app, ea_Jobs = enrich_jobs stages jobs\<rparr> # eas'"
    by (auto split: prod.splits sum.splits)
  from Cons.IH [OF r] show ?case
    by (auto simp: j s e split: prod.splits sum.splits)
qed

lemma computeState_Inr:
  assumes "computeState env host w = (Inr st, w')"
  shows "\<exists>apps w1. getApplications env host w = (Inr apps, w1) \<and>
           computeState_apps env host apps w1 = (Inr (st_Apps st), w') \<and> st_Host st = host"
  using assms by (auto simp: computeState_def split: prod.splits sum.splits)

lemma computeState_Inl:
  assumes "computeState env host w = (Inl e, w')"
  shows "getApplications env host w = (Inl e, w') \<or>
         (\<exists>apps w1. getApplications env host w = (Inr apps, w1) \<and>
            computeState_apps env host apps w1 = (Inl e, w'))"
  using assms by (auto simp: computeState_def split: prod.splits sum.splits)

lemma enrich_jobs_jobs: "map ej_Job (enrich_jobs stages jobs) = jobs"
  by (simp add: enrich_jobs_def enrich_job_def comp_def)

section \<open>The example network and the resize step\<close>

lemma insert_sorted_set: "set (insert_sorted lt x acc) = insert x (set acc)"
  by (induction acc) auto

lemma insert_sorted_sorted:
  "sorted (map f acc) \<Longrightarrow> sorted (map f (insert_sorted (\<lambda>a b. f a < f b) x acc))"
  for f :: "'a \<Rightarrow> int"
  by (induction acc) (auto simp: insert_sorted_set)

lemma foldl_insert_sorted:
  "sorted (map f acc) \<Longrightarrow> sorted (map f (foldl (\<lambda>acc x. insert_sorted (\<lambda>a b. f a < f b) x acc) acc xs))"
  for f :: "'a \<Rightarrow> int"
  by (induction xs arbitrary: acc) (simp_all add: insert_sorted_sorted)

lemma insertion_sort_sorted: "sorted (map f (insertion_sort (\<lambda>a b. f a < f b) xs))"
  for f :: "'a \<Rightarrow> int"
  by (simp add: insertion_sort_def foldl_insert_sorted)

lemma ex_computeState: "computeState ex_env ''http://x'' 0 = (Inr ex_snapshot, 3)"
  by (simp add: computeState_def getApplications_def getJobs_def getStages_def readApiEndpoint_def
        ex_env_def ex_http_Get_def ex_application_def insertion_sort_def ex_job0_def ex_job1_def
        mk_stage_def enrich_jobs_def enrich_job_def map_index_def ex_snapshot_def numeral_3_eq_3)

lemma ex_computeState_refused:
  "computeState ex_env ''http://y'' 0 =
     (Inl (Fatal ''Failed to GET endpoint /api/v1/applications: connection refused''), 1)"
  by (simp add: computeState_def getApplications_def readApiEndpoint_def ex_env_def ex_http_Get_def)

text \<open>
  Claim C9. A resize event that leaves the loop running changes the stored width and
  height to those of the payload and the screen to the layout of the held snapshot at the
  new size; the held snapshot, the host and the state of the network are unchanged. The
  step does not return; it stops only with the panic of the layout. It does not depend
  on the network: any environment with the same integer conversion gives the same step.
\<close>

theorem resize_frame:
  "(\<forall>s'. main_step env (UiEvent ''<Resize>'' (Resize w h)) s = Running s' \<longrightarrow>
      s' = s\<lparr>termWidth := w, termHeight := h, screen := screen s'\<rparr> \<and>
      termWidth s' = w \<and> termHeight s' = h \<and>
      held_state s' = held_state s \<and> held_host s' = held_host s \<and> world s' = world s \<and>
      render (float_to_int env) w h (held_state s) = Inr (screen s')) \<and>
   (\<forall>e. main_step env (UiEvent ''<Resize>'' (Resize w h)) s = Crashed e \<longrightarrow>
      render (float_to_int env) w h (held_state s) = Inl e) \<and>
   main_step env (UiEvent ''<Resize>'' (Resize w h)) s \<noteq> Returned \<and>
   (\<forall>env'. float_to_int env' = float_to_int env \<longrightarrow>
      main_step env' (UiEvent ''<Resize>'' (Resize w h)) s =
      main_step env (UiEvent ''<Resize>'' (Resize w h)) s)"
  by (auto split: sum.splits)

lemma ex_gauge: "gauge_percent impl ex_stage = 30"
  by code_simp

lemma ex_layout: "layout impl 80 h ex_state = Inr ex_screen"
  by (simp add: layout_def ex_state_def ex_render_app ex_gauge ex_screen_def)

theorem resize_frame_witness:
  "main_step ex_env (UiEvent ''<Resize>'' (Resize 80 24)) ex_main_state =
     Running (ex_main_state\<lparr>termWidth := 80, termHeight := 24, screen := ex_screen\<rparr>) \<and>
   held_state (ex_main_state\<lparr>termWidth := 80, termHeight := 24, screen := ex_screen\<rparr>) = ex_state \<and>
   world (ex_main_state\<lparr>termWidth := 80, termHeight := 24, screen := ex_screen\<rparr>) = 3"
  using resize_frame [of ex_env 80 24 ex_main_state]
  by (simp add: render_def ex_layout ex_main_state_def)

section \<open>Requests and the calls under them\<close>

lemma readApiEndpoint_fails:
  "fetch_fails env um (host @ endpoint) w w' \<Longrightarrow>
     \<exists>msg. readApiEndpoint env um host endpoint w = (Inl (Fatal msg), w')"
  by (auto simp: fetch_fails_def readApiEndpoint_def)

lemma readApiEndpoint_ok:
  "fetch_ok env um (host @ endpoint) w w' v \<Longrightarrow> readApiEndpoint env um host endpoint w = (Inr v, w')"
  by (auto simp: fetch_ok_def readApiEndpoint_def)

lemma readApiEndpoint_Inl_fails:
  "readApiEndpoint env um host endpoint w = (Inl e, w') \<Longrightarrow> fetch_fails env um (host @ endpoint) w w'"
  by (auto simp: fetch_fails_def readApiEndpoint_def split: prod.splits sum.splits)

lemma readApiEndpoint_Inr_ok:
  "readApiEndpoint env um host endpoint w = (Inr v, w') \<Longrightarrow> fetch_ok env um (host @ endpoint) w w' v"
  by (auto simp: fetch_ok_def readApiEndpoint_def split: prod.splits sum.splits)

lemma getApplications_fails:
  "fetch_fails env (unmarshal_apps env) (host @ ''/api/v1/applications'') w w' \<Longrightarrow>
     \<exists>msg. getApplications env host w = (Inl (Fatal msg), w')"
  unfolding getApplications_def by (rule readApiEndpoint_fails)

lemma getApplications_ok:
  "fetch_ok env (unmarshal_apps env) (host @ ''/api/v1/applications'') w w' apps \<Longrightarrow>
     getApplications env host w = (Inr apps, w')"
  unfolding getApplications_def by (rule readApiEndpoint_ok)

lemma getApplications_Inl_fails:
  "getApplications env host w = (Inl e, w') \<Longrightarrow>
     fetch_fails env (unmarshal_apps env) (host @ ''/api/v1/applications'') w w'"
  unfolding getApplications_def by (rule readApiEndpoint_Inl_fails)

lemma getApplications_Inr_ok:
  "getApplications env host w = (Inr apps, w') \<Longrightarrow>
     fetch_ok env (unmarshal_apps env) (host @ ''/api/v1/applications'') w w' apps"
  unfolding getApplications_def by (rule readApiEndpoint_Inr_ok)

lemma getJobs_fails:
  assumes "fetch_fails env (unmarshal_jobs env) (jobs_url host app) w w'"
  shows "\<exists>msg. getJobs env host app w = (Inl (Fatal msg), w')"
proof -
  from assms have "fetch_fails env (unmarshal_jobs env)
      (host @ (''/api/v1/applications/'' @ app_Id app @ ''/jobs'')) w w'"
    by (simp add: jobs_url_def)
  from readApiEndpoint_fails [OF this] show ?thesis
    by (auto simp: getJobs_def Let_def)
qed

lemma getJobs_ok:
  assumes "fetch_ok env (unmarshal_jobs env) (jobs_url host app) w w' raw"
  shows "getJobs env host app w = (Inr (sort_Slice_jobs env (\<lambda>a b. job_Index a < job_Index b) raw), w')"
proof -
  from assms have "fetch_ok env (unmarshal_jobs env)
      (host @ (''/api/v1/applications/'' @ app_Id app @ ''/jobs'')) w w' raw"
    by (simp add: jobs_url_def)
  from readApiEndpoint_ok [OF this] show ?thesis
    by (simp add: getJobs_def Let_def)
qed

lemma getJobs_Inl_fails:
  assumes "getJobs env host app w = (Inl e, w')"
  shows "fetch_fails env (unmarshal_jobs env) (jobs_url host app) w w'"
proof -
  from assms have "readApiEndpoint env (unmarshal_jobs env) host
      (''/api/v1/applications/'' @ app_Id app @ ''/jobs'') w = (Inl e, w')"
    by (auto simp: getJobs_def Let_def split: prod.splits sum.splits)
  from readApiEndpoint_Inl_fails [OF this] show ?thesis by (simp add: jobs_url_def)
qed

lemma getJobs_Inr_ok:
  assumes "getJobs env host app w = (Inr jobs, w')"
  shows "\<exists>raw. fetch_ok env (unmarshal_jobs env) (jobs_url host app) w w' raw \<and>
           jobs = sort_Slice_jobs env (\<lambda>a b. job_Index a < job_Index b) raw"
proof -
  from assms obtain raw where
    r: "readApiEndpoint env (unmarshal_jobs env) host
      (''/api/v1/applications/'' @ app_Id app @ ''/jobs'') w = (Inr raw, w')"
    and j: "jobs = sort_Slice_jobs env (\<lambda>a b. job_Index a < job_Index b) raw"
    by (auto simp: getJobs_def Let_def split: prod.splits sum.splits)
  from readApiEndpoint_Inr_ok [OF r] j show ?thesis by (auto simp: jobs_url_def)
qed

lemma getStages_fails:
  assumes "fetch_fails env (unmarshal_stages env) (stages_url host app) w w'"
  shows "\<exists>msg. getStages env host app w = (Inl (Fatal msg), w')"
proof -
  from assms have "fetch_fails env (unmarshal_stages env)
      (host @ (''/api/v1/applications/'' @ app_Id app @ ''/stages'')) w w'"
    by (simp add: stages_url_def)
  from readApiEndpoint_fails [OF this] show ?thesis
    by (auto simp: getStages_def Let_def)
qed

lemma getStages_Inl_fails:
  assumes "getStages env host app w = (Inl e, w')"
  shows "fetch_fails env (unmarshal_stages env) (stages_url host app) w w'"
proof -
  from assms have "readApiEndpoint env (unmarshal_stages env) host
      (''/api/v1/applications/'' @ app_Id app @ ''/stages'') w = (Inl e, w')"
    by (auto simp: getStages_def Let_def split: prod.splits sum.splits)
  from readApiEndpoint_Inl_fails [OF this] show ?thesis by (simp add: stages_url_def)
qed

lemma getStages_Inr_ok:
  assumes "getStages env host app w = (Inr stages, w')"
  shows "\<exists>raw. fetch_ok env (unmarshal_stages env) (stages_url host app) w w' raw \<and>
           stages = sort_Slice_stages env (\<lambda>a b. stage_Index a < stage_Index b) raw"
proof -
  from assms obtain raw where
    r: "readApiEndpoint env (unmarshal_stages env) host
      (''/api/v1/applications/'' @ app_Id app @ ''/stages'') w = (Inr raw, w')"
    and j: "stages = sort_Slice_stages env (\<lambda>a b. stage_Index a < stage_Index b) raw"
    by (auto simp: getStages_def Let_def split: prod.splits sum.splits)
  from readApiEndpoint_Inr_ok [OF r] j show ?thesis by (auto simp: stages_url_def)
qed

text \<open>
  Claim C8. \<open>Inl (Fatal msg)\<close> stands for the end of the process by \<open>log.Fatalf\<close> inside
  \<open>readApiEndpoint\<close>. When the request for the applications fails (the GET, the read of
  the body or the decoding), \<open>computeState\<close> ends so, in the state of the network that
  the failing request left. The same holds when the jobs request or the stages request of
  any application fails, made after the applications before it were aggregated: no
  later request is made. A snapshot that is returned has the host and one entry for
  every application of the decoded list, in order, each built from a jobs list and a
  stages list that were fetched and decoded. A failure that is returned is a \<open>Fatal\<close>,
  and one of the requests failed. The event loop, which calls \<open>computeState\<close> on a
  timer tick and on the key \<open>r\<close>, stops with that failure.
\<close>

theorem fetch_failure_aborts:
  "(\<forall>w1. fetch_fails env (unmarshal_apps env) (host @ ''/api/v1/applications'') w w1 \<longrightarrow>
      (\<exists>msg. computeState env host w = (Inl (Fatal msg), w1))) \<and>
   (\<forall>pre app post w1 eas w2 w3.
      fetch_ok env (unmarshal_apps env) (host @ ''/api/v1/applications'') w w1 (pre @ app # post) \<and>
      computeState_apps env host pre w1 = (Inr eas, w2) \<and>
      fetch_fails env (unmarshal_jobs env) (jobs_url host app) w2 w3 \<longrightarrow>
      (\<exists>msg. computeState env host w = (Inl (Fatal msg), w3))) \<and>
   (\<forall>pre app post w1 eas w2 raw w3 w4.
      fetch_ok env (unmarshal_apps env) (host @ ''/api/v1/applications'') w w1 (pre @ app # post) \<and>
      computeState_apps env host pre w1 = (Inr eas, w2) \<and>
      fetch_ok env (unmarshal_jobs env) (jobs_url host app) w2 w3 raw \<and>
      fetch_fails env (unmarshal_stages env) (stages_url host app) w3 w4 \<longrightarrow>
      (\<exists>msg. computeState env host w = (Inl (Fatal msg), w4))) \<and>
   (\<forall>st w'. computeState env host w = (Inr st, w') \<longrightarrow>
      st_Host st = host \<and>
      (\<exists>w1. fetch_ok env (unmarshal_apps env) (host @ ''/api/v1/applications'') w w1
               (map ea_App (st_Apps st))) \<and>
      (\<forall>ea\<in>set (st_Apps st). \<exists>wa wb wc rawj raws.
          fetch_ok env (unmarshal_jobs env) (jobs_url host (ea_App ea)) wa wb rawj \<and>
          fetch_ok env (unmarshal_stages env) (stages_url host (ea_App ea)) wb wc raws \<and>
          ea_Jobs ea =
            enrich_jobs (sort_Slice_stages env (\<lambda>a b. stage_Index a < stage_Index b) raws)
                        (sort_Slice_jobs env (\<lambda>a b. job_Index a < job_Index b) rawj))) \<and>
   (\<forall>e w'. computeState env host w = (Inl e, w') \<longrightarrow>
      (\<exists>msg. e = Fatal msg) \<and>
      (fetch_fails env (unmarshal_apps env) (host @ ''/api/v1/applications'') w w' \<or>
       (\<exists>apps w1. fetch_ok env (unmarshal_apps env) (host @ ''/api/v1/applications'') w w1 apps \<and>
          (\<exists>app\<in>set apps. \<exists>wa. fetch_fails env (unmarshal_jobs env) (jobs_url host app) wa w' \<or>
                                 fetch_fails env (unmarshal_stages env) (stages_url host app) wa w')))) \<and>
   (\<forall>s e w' p. held_host s = host \<and> world s = w \<and> computeState env host w = (Inl e, w') \<longrightarrow>
      main_step env Tick s = Crashed e \<and> main_step env (UiEvent ''r'' p) s = Crashed e)"
proof -
  let ?apps_url = "host @ ''/api/v1/applications''"
  have a: "\<forall>w1. fetch_fails env (unmarshal_apps env) ?apps_url w w1 \<longrightarrow>
      (\<exists>msg. computeState env host w = (Inl (Fatal msg), w1))"
  proof (intro allI impI)
    fix w1 assume "fetch_fails env (unmarshal_apps env) ?apps_url w w1"
    from getApplications_fails [OF this] obtain msg where
      "getApplications env host w = (Inl (Fatal msg), w1)" by blast
    then have "computeState env host w = (Inl (Fatal msg), w1)" by (simp add: computeState_def)
    then show "\<exists>msg. computeState env host w = (Inl (Fatal msg), w1)" by blast
  qed
  have b: "\<forall>pre app post w1 eas w2 w3.
      fetch_ok env (unmarshal_apps env) ?apps_url w w1 (pre @ app # post) \<and>
      computeState_apps env host pre w1 = (Inr eas, w2) \<and>
      fetch_fails env (unmarshal_jobs env) (jobs_url host app) w2 w3 \<longrightarrow>
      (\<exists>msg. computeState env host w = (Inl (Fatal msg), w3))"
  proof (intro allI impI, elim conjE)
    fix pre app post w1 eas w2 w3
    assume g: "fetch_ok env (unmarshal_apps env) ?apps_url w w1 (pre @ app # post)"
      and p: "computeState_apps env host pre w1 = (Inr eas, w2)"
      and j: "fetch_fails env (unmarshal_jobs env) (jobs_url host app) w2 w3"
    from getJobs_fails [OF j] obtain msg where
      jm: "getJobs env host app w2 = (Inl (Fatal msg), w3)" by blast
    have "computeState_apps env host (pre @ app # post) w1 = (Inl (Fatal msg), w3)"
      by (simp add: computeState_apps_prefix [OF p] jm)
    then have "computeState env host w = (Inl (Fatal msg), w3)"
      by (simp add: computeState_def getApplications_ok [OF g])
    then show "\<exists>msg. computeState env host w = (Inl (Fatal msg), w3)" by blast
  qed
  have c: "\<forall>pre app post w1 eas w2 raw w3 w4.
      fetch_ok env (unmarshal_apps env) ?apps_url w w1 (pre @ app # post) \<and>
      computeState_apps env host pre w1 = (Inr eas, w2) \<and>
      fetch_ok env (unmarshal_jobs env) (jobs_url host app) w2 w3 raw \<and>
      fetch_fails env (unmarshal_stages env) (stages_url host app) w3 w4 \<longrightarrow>
      (\<exists>msg. computeState env host w = (Inl (Fatal msg), w4))"
  proof (intro allI impI, elim conjE)
    fix pre app post w1 eas w2 raw w3 w4
    assume g: "fetch_ok env (unmarshal_apps env) ?apps_url w w1 (pre @ app # post)"
      and p: "computeState_apps env host pre w1 = (Inr eas, w2)"
      and j: "fetch_ok env (unmarshal_jobs env) (jobs_url host app) w2 w3 raw"
      and s: "fetch_fails env (unmarshal_stages env) (stages_url host app) w3 w4"
    from getStages_fails [OF s] obtain msg where
      sm: "getStages env host app w3 = (Inl (Fatal msg), w4)" by blast
    have "computeState_apps env host (pre @ app # post) w1 = (Inl (Fatal msg), w4)"
      by (simp add: computeState_apps_prefix [OF p] getJobs_ok [OF j] sm)
    then have "computeState env host w = (Inl (Fatal msg), w4)"
      by (simp add: computeState_def getApplications_ok [OF g])
    then show "\<exists>msg. computeState env host w = (Inl (Fatal msg), w4)" by blast
  qed
  have d: "\<forall>st w'. computeState env host w = (Inr st, w') \<longrightarrow>
      st_Host st = host \<and>
      (\<exists>w1. fetch_ok env (unmarshal_apps env) ?apps_url w w1 (map ea_App (st_Apps st))) \<and>
      (\<forall>ea\<in>set (st_Apps st). \<exists>wa wb wc rawj raws.
          fetch_ok env (unmarshal_jobs env) (jobs_url host (ea_App ea)) wa wb rawj \<and>
          fetch_ok env (unmarshal_stages env) (stages_url host (ea_App ea)) wb wc raws \<and>
          ea_Jobs ea =
            enrich_jobs (sort_Slice_stages env (\<lambda>a b. stage_Index a < stage_Index b) raws)
                        (sort_Slice_jobs env (\<lambda>a b. job_Index a < job_Index b) rawj))"
  proof (intro allI impI)
    fix st w' assume "computeState env host w = (Inr st, w')"
    from computeState_Inr [OF this] obtain apps w1 where
      g: "getApplications env host w = (Inr apps, w1)" and
      l: "computeState_apps env host apps w1 = (Inr (st_Apps st), w')" and h: "st_Host st = host"
      by blast
    note ai = computeState_apps_Inr [OF l]
    have g': "\<exists>w1. fetch_ok env (unmarshal_apps env) ?apps_url w w1 (map ea_App (st_Apps st))"
      using getApplications_Inr_ok [OF g] ai by auto
    have e': "\<forall>ea\<in>set (st_Apps st). \<exists>wa wb wc rawj raws.
          fetch_ok env (unmarshal_jobs env) (jobs_url host (ea_App ea)) wa wb rawj \<and>
          fetch_ok env (unmarshal_stages env) (stages_url host (ea_App ea)) wb wc raws \<and>
          ea_Jobs ea =
            enrich_jobs (sort_Slice_stages env (\<lambda>a b. stage_Index a < stage_Index b) raws)
                        (sort_Slice_jobs env (\<lambda>a b. job_Index a < job_Index b) rawj)"
    proof
      fix ea assume "ea \<in> set (st_Apps st)"
      with ai obtain wa wb wc jobs stages where
        j: "getJobs env host (ea_App ea) wa = (Inr jobs, wb)" and
        s: "getStages env host (ea_App ea) wb = (Inr stages, wc)" and
        e: "ea_Jobs ea = enrich_jobs stages jobs" by blast
      from getJobs_Inr_ok [OF j] getStages_Inr_ok [OF s] e
      show "\<exists>wa wb wc rawj raws.
          fetch_ok env (unmarshal_jobs env) (jobs_url host (ea_App ea)) wa wb rawj \<and>
          fetch_ok env (unmarshal_stages env) (stages_url host (ea_App ea)) wb wc raws \<and>
          ea_Jobs ea =
            enrich_jobs (sort_Slice_stages env (\<lambda>a b. stage_Index a < stage_Index b) raws)
                        (sort_Slice_jobs env (\<lambda>a b. job_Index a < job_Index b) rawj)"
        by blast
    qed
    show "st_Host st = host \<and>
      (\<exists>w1. fetch_ok env (unmarshal_apps env) ?apps_url w w1 (map ea_App (st_Apps st))) \<and>
      (\<forall>ea\<in>set (st_Apps st). \<exists>wa wb wc rawj raws.
          fetch_ok env (unmarshal_jobs env) (jobs_url host (ea_App ea)) wa wb rawj \<and>
          fetch_ok env (unmarshal_stages env) (stages_url host (ea_App ea)) wb wc raws \<and>
          ea_Jobs ea =
            enrich_jobs (sort_Slice_stages env (\<lambda>a b. stage_Index a < stage_Index b) raws)
                        (sort_Slice_jobs env (\<lambda>a b. job_Index a < job_Index b) rawj))"
      using h g' e' by blast
  qed
  have e: "\<forall>e w'. computeState env host w = (Inl e, w') \<longrightarrow>
      (\<exists>msg. e = Fatal msg) \<and>
      (fetch_fails env (unmarshal_apps env) ?apps_url w w' \<or>
       (\<exists>apps w1. fetch_ok env (unmarshal_apps env) ?apps_url w w1 apps \<and>
          (\<exists>app\<in>set apps. \<exists>wa. fetch_fails env (unmarshal_jobs env) (jobs_url host app) wa w' \<or>
                                 fetch_fails env (unmarshal_stages env) (stages_url host app) wa w')))"
  proof (intro allI impI)
    fix e w' assume cs: "computeState env host w = (Inl e, w')"
    from computeState_Inl [OF cs] show "(\<exists>msg. e = Fatal msg) \<and>
      (fetch_fails env (unmarshal_apps env) ?apps_url w w' \<or>
       (\<exists>apps w1. fetch_ok env (unmarshal_apps env) ?apps_url w w1 apps \<and>
          (\<exists>app\<in>set apps. \<exists>wa. fetch_fails env (unmarshal_jobs env) (jobs_url host app) wa w' \<or>
                                 fetch_fails env (unmarshal_stages env) (stages_url host app) wa w')))"
    proof
      assume ga: "getApplications env host w = (Inl e, w')"
      from getApplications_Inl [OF ga] getApplications_Inl_fails [OF ga] show ?thesis by blast
    next
      assume "\<exists>apps w1. getApplications env host w = (Inr apps, w1) \<and>
            computeState_apps env host apps w1 = (Inl e, w')"
      then obtain apps w1 where g: "getApplications env host w = (Inr apps, w1)"
        and l: "computeState_apps env host apps w1 = (Inl e, w')" by blast
      from computeState_apps_Inl [OF l] obtain app wa where app: "app \<in> set apps" and
        f: "getJobs env host app wa = (Inl e, w') \<or> getStages env host app wa = (Inl e, w')"
        by blast
      from f have m: "\<exists>msg. e = Fatal msg" by (auto dest: getJobs_Inl getStages_Inl)
      from f have "fetch_fails env (unmarshal_jobs env) (jobs_url host app) wa w' \<or>
                   fetch_fails env (unmarshal_stages env) (stages_url host app) wa w'"
        by (auto dest: getJobs_Inl_fails getStages_Inl_fails)
      with app getApplications_Inr_ok [OF g] m show ?thesis by blast
    qed
  qed
  have f: "\<forall>s e w' p. held_host s = host \<and> world s = w \<and> computeState env host w = (Inl e, w') \<longrightarrow>
      main_step env Tick s = Crashed e \<and> main_step env (UiEvent ''r'' p) s = Crashed e"
    by (simp add: refresh_def)
  show ?thesis by (intro conjI a b c d e f)
qed

lemma ex_fetch_refused:
  "fetch_fails ex_env (unmarshal_apps ex_env) (''http://y'' @ ''/api/v1/applications'') 0 1"
  by (simp add: fetch_fails_def ex_env_def ex_http_Get_def)

theorem fetch_failure_aborts_witness:
  "http_Get ex_env ''http://y/api/v1/applications'' 0 = (Inl ''connection refused'', 1) \<and>
   computeState ex_env ''http://y'' 0 =
     (Inl (Fatal ''Failed to GET endpoint /api/v1/applications: connection refused''), 1)"
proof -
  note t = fetch_failure_aborts [of ex_env "''http://y''" 0, THEN conjunct1, rule_format,
      OF ex_fetch_refused]
  have g: "http_Get ex_env ''http://y/api/v1/applications'' 0 = (Inl ''connection refused'', 1)"
    by (simp add: ex_env_def ex_http_Get_def)
  from t g ex_computeState_refused show ?thesis by simp
qed

section \<open>Order of jobs and stages\<close>

lemma build_stagesMap_resolve:
  "build_stagesMap m stages k =
     (case filter (\<lambda>s. stage_Index s = k) stages of [] \<Rightarrow> m k | s # rest \<Rightarrow> Some (last (s # rest)))"
proof (induction stages arbitrary: m)
  case Nil
  then show ?case by simp
next
  case (Cons a stages)
  show ?case
    by (simp add: Cons.IH [of "m(stage_Index a \<mapsto> a)"] split: list.splits)
qed

lemma map_index_resolve: "map_index (build_stagesMap Map.empty stages) k = resolve_stage stages k"
  by (simp add: map_index_def resolve_stage_def build_stagesMap_resolve split: list.splits)

lemma enrich_jobs_resolve:
  "ej \<in> set (enrich_jobs stages jobs) \<Longrightarrow>
     ej_Stages ej = map (resolve_stage stages) (job_Stages (ej_Job ej))"
  by (auto simp: enrich_jobs_def enrich_job_def map_index_resolve)

lemma sort_Slice_contractD:
  "sort_Slice_contract srt \<Longrightarrow>
     sorted (map key (srt (\<lambda>a b. key a < key b) xs)) \<and> mset (srt (\<lambda>a b. key a < key b) xs) = mset xs"
  for key :: "'a \<Rightarrow> int"
  unfolding sort_Slice_contract_def by blast

text \<open>
  Claim C4, amended. Given what \<open>sort.Slice\<close> promises, the list that \<open>getJobs\<close>
  returns is in ascending order of the job index and holds exactly the decoded jobs, and
  the list that \<open>getStages\<close> returns is in ascending order of the stage index and holds
  exactly the decoded stages. In a snapshot, the jobs of every application are the list
  that \<open>getJobs\<close> returned, in that order. The stages of a job are not in ascending
  order: they follow the job's stage references, each reference resolved against the list
  that \<open>getStages\<close> returned, to the last stage of that list with the index and to the
  zero value when there is none. Nothing is promised on the order of jobs or stages with
  equal indices.
\<close>

theorem sorted_jobs_and_stages:
  assumes "sort_Slice_contract (sort_Slice_jobs env)" and "sort_Slice_contract (sort_Slice_stages env)"
  shows "(\<forall>app wa wb jobs. getJobs env host app wa = (Inr jobs, wb) \<longrightarrow>
            sorted (map job_Index jobs) \<and>
            (\<exists>raw. fetch_ok env (unmarshal_jobs env) (jobs_url host app) wa wb raw \<and> mset jobs = mset raw)) \<and>
         (\<forall>app wa wb stages. getStages env host app wa = (Inr stages, wb) \<longrightarrow>
            sorted (map stage_Index stages) \<and>
            (\<exists>raw. fetch_ok env (unmarshal_stages env) (stages_url host app) wa wb raw \<and>
                   mset stages = mset raw)) \<and>
         (\<forall>st w'. computeState env host w = (Inr st, w') \<longrightarrow>
            (\<forall>ea\<in>set (st_Apps st). \<exists>wa wb wc jobs stages.
                getJobs env host (ea_App ea) wa = (Inr jobs, wb) \<and>
                getStages env host (ea_App ea) wb = (Inr stages, wc) \<and>
                map ej_Job (ea_Jobs ea) = jobs \<and>
                sorted (map job_Index (map ej_Job (ea_Jobs ea))) \<and>
                (\<forall>ej\<in>set (ea_Jobs ea).
                    ej_Stages ej = map (resolve_stage stages) (job_Stages (ej_Job ej)))))"
proof -
  have a: "\<forall>app wa wb jobs. getJobs env host app wa = (Inr jobs, wb) \<longrightarrow>
            sorted (map job_Index jobs) \<and>
            (\<exists>raw. fetch_ok env (unmarshal_jobs env) (jobs_url host app) wa wb raw \<and> mset jobs = mset raw)"
  proof (intro allI impI)
    fix app wa wb jobs assume "getJobs env host app wa = (Inr jobs, wb)"
    from getJobs_Inr_ok [OF this] obtain raw where
      f: "fetch_ok env (unmarshal_jobs env) (jobs_url host app) wa wb raw" and
      j: "jobs = sort_Slice_jobs env (\<lambda>a b. job_Index a < job_Index b) raw" by blast
    from sort_Slice_contractD [OF assms(1), of job_Index raw] f
    show "sorted (map job_Index jobs) \<and>
            (\<exists>raw. fetch_ok env (unmarshal_jobs env) (jobs_url host app) wa wb raw \<and> mset jobs = mset raw)"
      unfolding j by blast
  qed
  have b: "\<forall>app wa wb stages. getStages env host app wa = (Inr stages, wb) \<longrightarrow>
            sorted (map stage_Index stages) \<and>
            (\<exists>raw. fetch_ok env (unmarshal_stages env) (stages_url host app) wa wb raw \<and>
                   mset stages = mset raw)"
  proof (intro allI impI)
    fix app wa wb stages assume "getStages env host app wa = (Inr stages, wb)"
    from getStages_Inr_ok [OF this] obtain raw where
      f: "fetch_ok env (unmarshal_stages env) (stages_url host app) wa wb raw" and
      j: "stages = sort_Slice_stages env (\<lambda>a b. stage_Index a < stage_Index b) raw" by blast
    from sort_Slice_contractD [OF assms(2), of stage_Index raw] f
    show "sorted (map stage_Index stages) \<and>
            (\<exists>raw. fetch_ok env (unmarshal_stages env) (stages_url host app) wa wb raw \<and>
                   mset stages = mset raw)"
      unfolding j by blast
  qed
  have c: "\<forall>st w'. computeState env host w = (Inr st, w') \<longrightarrow>
            (\<forall>ea\<in>set (st_Apps st). \<exists>wa wb wc jobs stages.
                getJobs env host (ea_App ea) wa = (Inr jobs, wb) \<and>
                getStages env host (ea_App ea) wb = (Inr stages, wc) \<and>
                map ej_Job (ea_Jobs ea) = jobs \<and>
                sorted (map job_Index (map ej_Job (ea_Jobs ea))) \<and>
                (\<forall>ej\<in>set (ea_Jobs ea).
                    ej_Stages ej = map (resolve_stage stages) (job_Stages (ej_Job ej))))"
  proof (intro allI impI ballI)
    fix st w' ea assume cs: "computeState env host w = (Inr st, w')" and ea: "ea \<in> set (st_Apps st)"
    from computeState_Inr [OF cs] obtain apps w1 where
      l: "computeState_apps env host apps w1 = (Inr (st_Apps st), w')" by blast
    from computeState_apps_Inr [OF l] ea obtain wa wb wc jobs stages where
      j: "getJobs env host (ea_App ea) wa = (Inr jobs, wb)" and
      s: "getStages env host (ea_App ea) wb = (Inr stages, wc)" and
      e: "ea_Jobs ea = enrich_jobs stages jobs" by blast
    have m: "map ej_Job (ea_Jobs ea) = jobs" by (simp only: e enrich_jobs_jobs)
    from a j have so: "sorted (map job_Index (map ej_Job (ea_Jobs ea)))" unfolding m by blast
    have r: "\<forall>ej\<in>set (ea_Jobs ea). ej_Stages ej = map (resolve_stage stages) (job_Stages (ej_Job ej))"
      unfolding e using enrich_jobs_resolve by blast
    from j s m so r show "\<exists>wa wb wc jobs stages.
                getJobs env host (ea_App ea) wa = (Inr jobs, wb) \<and>
                getStages env host (ea_App ea) wb = (Inr stages, wc) \<and>
                map ej_Job (ea_Jobs ea) = jobs \<and>
                sorted (map job_Index (map ej_Job (ea_Jobs ea))) \<and>
                (\<forall>ej\<in>set (ea_Jobs ea).
                    ej_Stages ej = map (resolve_stage stages) (job_Stages (ej_Job ej)))"
      by blast
  qed
  show ?thesis by (intro conjI a b c)
qed

lemma insert_sorted_mset: "mset (insert_sorted lt x acc) = add_mset x (mset acc)"
  by (induction acc) auto

lemma foldl_insert_sorted_mset:
  "mset (foldl (\<lambda>acc x. insert_sorted lt x acc) acc xs) = mset acc + mset xs"
  by (induction xs arbitrary: acc) (simp_all add: insert_sorted_mset)

lemma insertion_sort_mset: "mset (insertion_sort lt xs) = mset xs"
  by (simp add: insertion_sort_def foldl_insert_sorted_mset)

lemma insertion_sort_contract: "sort_Slice_contract insertion_sort"
  by (simp add: sort_Slice_contract_def insertion_sort_sorted insertion_sort_mset)

lemma swap_pairs_mset:
  "swap_pairs lt xs ys = (xs', ys') \<Longrightarrow> mset xs' + mset ys' = mset xs + mset ys"
  by (induction lt xs ys arbitrary: xs' ys' rule: swap_pairs.induct)
     (auto split: prod.splits if_splits)

lemma gap6_pass_mset: "mset (gap6_pass lt xs) = mset xs"
proof -
  obtain f b where s: "swap_pairs lt (take 6 xs) (drop 6 xs) = (f, b)" by (cases "swap_pairs lt (take 6 xs) (drop 6 xs)")
  have "mset (take 6 xs) + mset (drop 6 xs) = mset (take 6 xs @ drop 6 xs)" by (simp only: mset_append)
  also have "\<dots> = mset xs" by (simp only: append_take_drop_id)
  finally have "mset f + mset b = mset xs" using swap_pairs_mset [OF s] by simp
  then show ?thesis by (simp add: gap6_pass_def s)
qed

lemma sort_Slice_short_contract: "sort_Slice_contract sort_Slice_short"
  by (simp add: sort_Slice_contract_def sort_Slice_short_def insertion_sort_sorted insertion_sort_mset
        gap6_pass_mset)

lemma ex_computeState_ties:
  "map (job_Name \<circ> ej_Job) (snapshot_jobs (computeState ex_env_ties ''http://x'' 0)) =
     [''g'', ''b'', ''a'', ''c'', ''d'', ''e'', ''f''] \<and>
   map (job_Index \<circ> ej_Job) (snapshot_jobs (computeState ex_env_ties ''http://x'' 0)) =
     [1, 2, 2, 3, 4, 5, 6] \<and>
   map stage_Index (ej_Stages (snapshot_jobs (computeState ex_env_ties ''http://x'' 0) ! 2)) = [2, 1]"
  by (simp add: computeState_def getApplications_def getJobs_def getStages_def readApiEndpoint_def
        ex_env_ties_def ex_env_def ex_http_Get_def ex_application_def sort_Slice_short_def gap6_pass_def
        insertion_sort_def ex_jobs_ties_def mk_job_def snapshot_jobs_def
        mk_stage_def enrich_jobs_def enrich_job_def map_index_def)

text \<open>
  The claim as stated fails on both counts for the seven jobs of the second example
  network. The jobs \<open>a\<close> and \<open>b\<close> have the index 2 and are fetched in this order; the
  snapshot lists \<open>b\<close> before \<open>a\<close>, since the pass over the pairs six places apart moves
  \<open>a\<close> behind \<open>b\<close>. The job \<open>a\<close> refers to the stages 2 and 1 in that order, and the
  snapshot lists them so.
\<close>

theorem sorted_jobs_and_stages_counterexample:
  "unmarshal_jobs ex_env_ties ''jobs'' = Inr ex_jobs_ties \<and>
   map job_Name ex_jobs_ties = [''a'', ''c'', ''d'', ''b'', ''e'', ''f'', ''g''] \<and>
   map job_Index ex_jobs_ties = [2, 3, 4, 2, 5, 6, 1] \<and>
   map (job_Name \<circ> ej_Job) (snapshot_jobs (computeState ex_env_ties ''http://x'' 0)) =
     [''g'', ''b'', ''a'', ''c'', ''d'', ''e'', ''f''] \<and>
   map (job_Index \<circ> ej_Job) (snapshot_jobs (computeState ex_env_ties ''http://x'' 0)) =
     [1, 2, 2, 3, 4, 5, 6] \<and>
   map stage_Index (ej_Stages (snapshot_jobs (computeState ex_env_ties ''http://x'' 0) ! 2)) = [2, 1] \<and>
   \<not> sorted [2, 1 :: int]"
  using ex_computeState_ties
  by (simp add: ex_env_ties_def ex_env_def ex_jobs_ties_def mk_job_def)

theorem sorted_jobs_and_stages_witness:
  "ea_Jobs (hd (st_Apps ex_snapshot)) =
     [\<lparr>ej_Job = ex_job0,
       ej_Stages = [mk_stage 2 ''reduce'' ''PENDING'' 0 4, mk_stage 1 ''map'' ''ACTIVE'' 7 25]\<rparr>,
      \<lparr>ej_Job = ex_job1, ej_Stages = [zero_Stage]\<rparr>] \<and>
   sorted (map job_Index (map ej_Job (ea_Jobs (hd (st_Apps ex_snapshot)))))"
proof -
  have c1: "sort_Slice_contract (sort_Slice_jobs ex_env)"
    by (simp add: ex_env_def insertion_sort_contract)
  have c2: "sort_Slice_contract (sort_Slice_stages ex_env)"
    by (simp add: ex_env_def insertion_sort_contract)
  note t = sorted_jobs_and_stages [OF c1 c2, of "''http://x''" 0, THEN conjunct2, THEN conjunct2,
      rule_format, OF ex_computeState, of "hd (st_Apps ex_snapshot)"]
  have "hd (st_Apps ex_snapshot) \<in> set (st_Apps ex_snapshot)" by (simp add: ex_snapshot_def)
  from t [OF this] have "sorted (map job_Index (map ej_Job (ea_Jobs (hd (st_Apps ex_snapshot)))))"
    by blast
  then show ?thesis by (simp add: ex_snapshot_def)
qed

section \<open>Rounding to double precision\<close>

lemma round_half_even_err: "\<bar>of_int (round_half_even q) - q\<bar> \<le> 1 / 2"
proof -
  have "of_int \<lfloor>q\<rfloor> \<le> q" "q < of_int \<lfloor>q\<rfloor> + 1" by linarith+
  then show ?thesis by (auto simp: round_half_even_def Let_def)
qed

lemma round_half_even_int: "round_half_even (of_int n) = n"
  by (simp add: round_half_even_def)

lemma round_half_even_nonneg: "0 \<le> q \<Longrightarrow> 0 \<le> round_half_even q"
  by (auto simp: round_half_even_def Let_def)

lemma ilog2_bounds:
  assumes "0 < x"
  shows "2 powi (ilog2 x) \<le> x \<and> x < 2 powi (ilog2 x + 1)"
proof (cases "1 \<le> x")
  case True
  define n where "n = nat \<lfloor>x\<rfloor>"
  have n: "0 < n" using True by (simp add: n_def)
  have nx: "of_nat n \<le> x" "x < of_nat n + 1" using True by (simp_all add: n_def) linarith+
  define fl where "fl = floorlog 2 n"
  from floorlog_bounds [of n 2] n have b: "2 ^ (fl - 1) \<le> n" "n < 2 ^ fl" by (simp_all add: fl_def)
  have fl: "0 < fl" using b n by (cases fl) auto
  have e: "ilog2 x = int fl - 1" using True by (simp add: ilog2_def n_def fl_def)
  have e1: "ilog2 x = int (fl - 1)" using e fl by simp
  have e2: "ilog2 x + 1 = int fl" using e by simp
  have r1: "(2::rat) ^ (fl - 1) \<le> of_nat n"
    using b(1) of_nat_le_iff [of "2 ^ (fl - 1)" n, where ?'a = rat] by simp
  have q1: "(2::rat) powi (ilog2 x) = 2 ^ (fl - 1)" unfolding e1 by (rule power_int_of_nat)
  have lo: "2 powi (ilog2 x) \<le> x" unfolding q1 using r1 nx(1) by (rule order_trans)
  have r2: "of_nat n + 1 \<le> (2::rat) ^ fl"
    using b(2) of_nat_le_iff [of "Suc n" "2 ^ fl", where ?'a = rat] by simp
  have q2: "(2::rat) powi (ilog2 x + 1) = 2 ^ fl" unfolding e2 by (rule power_int_of_nat)
  have hi: "x < 2 powi (ilog2 x + 1)" unfolding q2 using nx(2) r2 by (rule less_le_trans)
  show ?thesis using lo hi by (rule conjI)
next
  case False
  then have x1: "x < 1" by simp
  define N where "N = \<lceil>1 / x\<rceil>"
  have inv: "1 < 1 / x" using assms x1 by simp
  have N2: "2 \<le> N" unfolding N_def using inv by linarith
  define M where "M = nat (N - 1)"
  have M: "0 < M" "int M = N - 1" using N2 by (simp_all add: M_def)
  have Mx: "of_nat M < 1 / x" "1 / x \<le> of_nat M + 1"
  proof -
    have "(of_int (N - 1) :: rat) < 1 / x" unfolding N_def by linarith
    then show "of_nat M < 1 / x" using M(2) of_int_of_nat_eq [of M, where ?'a = rat] by simp
    have "1 / x \<le> (of_int N :: rat)" unfolding N_def by linarith
    also have "(of_int N :: rat) = of_nat M + 1"
    proof -
      have "N = int M + 1" using M(2) by simp
      then show ?thesis by simp
    qed
    finally show "1 / x \<le> of_nat M + 1" .
  qed
  define fl where "fl = floorlog 2 M"
  from floorlog_bounds [of M 2] M have b: "2 ^ (fl - 1) \<le> M" "M < 2 ^ fl" by (simp_all add: fl_def)
  have fl: "0 < fl" using b M by (cases fl) auto
  have e: "ilog2 x = - int fl" using False by (simp add: ilog2_def N_def M_def fl_def)
  have e2: "ilog2 x + 1 = - int (fl - 1)" using e fl by simp
  have p1: "2 powi (ilog2 x) = 1 / (2::rat) ^ fl" unfolding e
    by (simp only: power_int_minus_divide power_int_of_nat)
  have p2: "2 powi (ilog2 x + 1) = 1 / (2::rat) ^ (fl - 1)" unfolding e2
    by (simp only: power_int_minus_divide power_int_of_nat)
  have r2: "of_nat M + 1 \<le> (2::rat) ^ fl"
    using b(2) of_nat_le_iff [of "Suc M" "2 ^ fl", where ?'a = rat] by simp
  have "1 / x \<le> (2::rat) ^ fl" using Mx(2) r2 by (rule order_trans)
  then have lo: "1 / (2::rat) ^ fl \<le> x" using assms by (simp add: field_simps)
  have r1: "(2::rat) ^ (fl - 1) \<le> of_nat M"
    using b(1) of_nat_le_iff [of "2 ^ (fl - 1)" M, where ?'a = rat] by simp
  have "(2::rat) ^ (fl - 1) < 1 / x" using r1 Mx(1) by (rule le_less_trans)
  then have hi: "x < 1 / (2::rat) ^ (fl - 1)" using assms by (simp add: field_simps)
  show ?thesis unfolding p1 p2 using lo hi by (rule conjI)
qed

lemma round53_pos_eq:
  "0 < x \<Longrightarrow> round53 x = of_int (round_half_even (x / 2 powi (ilog2 x - 52))) * 2 powi (ilog2 x - 52)"
  by (simp add: round53_def Let_def)

lemma round53_zero: "round53 0 = 0"
  by (simp add: round53_def)

lemma round53_nonneg: "0 \<le> x \<Longrightarrow> 0 \<le> round53 x"
proof (cases "x = 0")
  case True
  then show ?thesis by (simp add: round53_zero)
next
  case False
  assume "0 \<le> x"
  with False have x: "0 < x" by simp
  have s: "(0::rat) < 2 powi (ilog2 x - 52)" by (simp add: power_int_def)
  then have "0 \<le> x / 2 powi (ilog2 x - 52)" using x by simp
  from round_half_even_nonneg [OF this] s show ?thesis
    unfolding round53_pos_eq [OF x] by simp
qed

lemma round53_err:
  assumes "0 < x"
  shows "\<bar>round53 x - x\<bar> \<le> x / 2 ^ 53"
proof -
  define s :: rat where "s = 2 powi (ilog2 x - 52)"
  have s: "0 < s" by (simp add: s_def power_int_def)
  define r where "r = round_half_even (x / s)"
  have rx: "round53 x = of_int r * s" unfolding r_def s_def by (rule round53_pos_eq [OF assms])
  have "round53 x - x = (of_int r - x / s) * s" using s by (simp add: rx field_simps)
  then have "\<bar>round53 x - x\<bar> = \<bar>of_int r - x / s\<bar> * s" using s by (simp add: abs_mult)
  also have "\<dots> \<le> (1 / 2) * s"
    using round_half_even_err [of "x / s"] s unfolding r_def by (intro mult_right_mono) simp_all
  also have "(1 / 2) * s = 2 powi (ilog2 x) / 2 ^ 53"
  proof -
    have "(2::rat) powi (ilog2 x - 52) = 2 powi (ilog2 x) / 2 powi 52"
      by (rule power_int_diff) simp
    then show ?thesis by (simp add: s_def)
  qed
  also have "\<dots> \<le> x / 2 ^ 53"
    using ilog2_bounds [OF assms] by (simp add: divide_right_mono)
  finally show ?thesis .
qed

lemma ilog2_less:
  assumes "0 < x" "x < 2 ^ n"
  shows "ilog2 x < int n"
proof (rule ccontr)
  assume "\<not> ilog2 x < int n"
  then have "int n \<le> ilog2 x" by simp
  then have "(2::rat) powi (int n) \<le> 2 powi (ilog2 x)" by (intro power_int_increasing) simp_all
  with ilog2_bounds [OF assms(1)] assms(2) show False by simp
qed

lemma round53_of_int:
  assumes "0 \<le> n" "n < 2 ^ 53"
  shows "round53 (of_int n) = of_int n"
proof (cases "n = 0")
  case True
  then show ?thesis by (simp add: round53_zero)
next
  case False
  with assms have pos: "(0::rat) < of_int n" by simp
  have "(of_int n :: rat) < 2 ^ 53" using assms(2) by (metis of_int_less_iff of_int_numeral of_int_power)
  from ilog2_less [OF pos this] have e: "ilog2 (of_int n) - 52 \<le> 0" by simp
  define k where "k = nat (52 - ilog2 (of_int n :: rat))"
  have ek: "ilog2 (of_int n :: rat) - 52 = - int k" using e by (simp add: k_def)
  have s: "(2::rat) powi (ilog2 (of_int n :: rat) - 52) = 1 / 2 ^ k"
    unfolding ek by (simp only: power_int_minus_divide power_int_of_nat)
  have "(of_int n :: rat) / (1 / 2 ^ k) = of_int (n * 2 ^ k)" by simp
  then have "round_half_even (of_int n / (1 / 2 ^ k)) = n * 2 ^ k"
    by (simp only: round_half_even_int)
  then show ?thesis unfolding round53_pos_eq [OF pos] s by simp
qed

section \<open>The gauge percent\<close>

lemma abs_diff_leD: "\<bar>a - b\<bar> \<le> d \<Longrightarrow> a \<le> b + d \<and> b \<le> a + d"
  for a b d :: rat
  by linarith

lemma product_error:
  fixes c t :: int
  assumes "0 < t" "0 \<le> c" "c \<le> t"
  shows "0 \<le> round53 (round53 (of_int c / of_int t) * 100) \<and>
         \<bar>round53 (round53 (of_int c / of_int t) * 100) - 100 * of_int c / of_int t\<bar> \<le> 201 / 2 ^ 53"
proof (cases "c = 0")
  case True
  then show ?thesis by (simp add: round53_zero)
next
  case False
  define q :: rat where "q = of_int c / of_int t"
  define x where "x = round53 q"
  define y where "y = round53 (x * 100)"
  have q0: "0 < q" using False assms by (simp add: q_def)
  have q1: "q \<le> 1" using assms by (simp add: q_def)
  have e1: "\<bar>x - q\<bar> \<le> q / 2 ^ 53" unfolding x_def by (rule round53_err [OF q0])
  note b1 = abs_diff_leD [OF e1]
  have x0: "0 < x" using b1 q0 by (simp; linarith)
  have x1: "x \<le> 1 + 1 / 2 ^ 53" using b1 q1 by (simp; linarith)
  have "0 < x * 100" using x0 by simp
  from round53_err [OF this] have e2: "\<bar>y - x * 100\<bar> \<le> x * 100 / 2 ^ 53" unfolding y_def .
  have y0: "0 \<le> y" unfolding y_def using x0 by (intro round53_nonneg) simp
  note b2 = abs_diff_leD [OF e2]
  have "y \<le> 100 * q + 201 / 2 ^ 53 \<and> 100 * q \<le> y + 201 / 2 ^ 53"
    using b1 b2 x1 q1 q0 by (simp; linarith)
  then have "\<bar>y - 100 * q\<bar> \<le> 201 / 2 ^ 53" by linarith
  then show ?thesis using y0 unfolding y_def x_def q_def by simp
qed

lemma ceiling_near_fraction:
  fixes c t :: int and y :: rat
  assumes t: "0 < t" "t \<le> 2 ^ 45" and c: "0 \<le> c"
    and y: "\<bar>y - 100 * of_int c / of_int t\<bar> \<le> 201 / 2 ^ 53"
  shows "(\<not> t dvd 100 * c \<longrightarrow> \<lceil>y\<rceil> = \<lceil>100 * of_int c / of_int t :: rat\<rceil>) \<and>
         (t dvd 100 * c \<longrightarrow> \<lceil>y\<rceil> = 100 * c div t \<or> \<lceil>y\<rceil> = 100 * c div t + 1)"
proof -
  define Q :: rat where "Q = 100 * of_int c / of_int t"
  define k where "k = 100 * c div t"
  define r where "r = 100 * c mod t"
  have r: "0 \<le> r" "r < t" using t by (simp_all add: r_def)
  have "100 * c = k * t + r" by (simp add: k_def r_def)
  then have "(100 * of_int c :: rat) = of_int k * of_int t + of_int r"
    by (metis of_int_add of_int_mult of_int_numeral)
  then have Q: "Q = of_int k + of_int r / of_int t" using t by (simp add: Q_def field_simps)
  have yQ: "\<bar>y - Q\<bar> \<le> 201 / 2 ^ 53" using y by (simp add: Q_def)
  have tr: "(0::rat) < of_int t" "(of_int t :: rat) \<le> 2 ^ 45"
    using t by simp (metis t(2) of_int_le_iff of_int_numeral of_int_power)
  show ?thesis
  proof (cases "t dvd 100 * c")
    case True
    then have "r = 0" by (simp add: r_def)
    then have "Q = of_int k" using Q by simp
    with abs_diff_leD [OF yQ] have yk: "y \<le> of_int k + 201 / 2 ^ 53" "of_int k \<le> y + 201 / 2 ^ 53"
      by simp_all
    have small: "(201::rat) / 2 ^ 53 < 1" by simp
    have "of_int k - 1 < y" "y < of_int k + 1" using yk small by linarith+
    then have "\<lceil>y\<rceil> = k \<or> \<lceil>y\<rceil> = k + 1" by linarith
    with True show ?thesis by (simp add: k_def)
  next
    case False
    then have "r \<noteq> 0" by (simp add: r_def dvd_eq_mod_eq_0)
    with r have r1: "1 \<le> r" "1 \<le> t - r" by simp_all
    have f1: "(1::rat) / 2 ^ 45 \<le> of_int r / of_int t"
      using r1(1) tr by (intro frac_le) simp_all
    have "(1::rat) / 2 ^ 45 \<le> of_int (t - r) / of_int t"
      using r1(2) tr by (intro frac_le) simp_all
    also have "of_int (t - r) / of_int t = 1 - (of_int r / of_int t :: rat)"
      using tr by (simp add: field_simps)
    finally have f2: "(of_int r / of_int t :: rat) \<le> 1 - 1 / 2 ^ 45" by simp
    note bq = abs_diff_leD [OF yQ]
    have lo: "of_int k < y" using bq Q f1 by (simp; linarith)
    have hi: "y \<le> of_int k + 1" using bq Q f2 by (simp; linarith)
    have cy: "\<lceil>y\<rceil> = k + 1" using lo hi by (rule ceiling_eq)
    have pos: "(0::rat) < 1 / 2 ^ 45" by simp
    have "of_int k < Q" "Q \<le> of_int k + 1" using Q f1 f2 pos by linarith+
    then have "\<lceil>Q\<rceil> = k + 1" by (rule ceiling_eq)
    with cy False show ?thesis by (simp add: Q_def)
  qed
qed

lemma go_trunc_of_int: "go_trunc (of_int k) = k"
  by (simp add: go_trunc_def)

lemma gauge_percent_finite:
  assumes "0 \<le> c" "c < 2 ^ 53" "0 < t" "t < 2 ^ 53"
    and "stage_CompletedTasks s = c" "stage_Tasks s = t"
    and "- (2 ^ 63) \<le> \<lceil>round53 (round53 (of_int c / of_int t) * 100)\<rceil>"
    and "\<lceil>round53 (round53 (of_int c / of_int t) * 100)\<rceil> < 2 ^ 63"
  shows "gauge_percent impl s = \<lceil>round53 (round53 (of_int c / of_int t) * 100)\<rceil>"
proof -
  have c: "float64_of_int c = Finite (of_int c)"
    using assms(1,2) by (simp add: float64_of_int_def round53_of_int)
  have t: "float64_of_int t = Finite (of_int t)"
    using assms(3,4) by (simp add: float64_of_int_def round53_of_int)
  have h: "float64_of_int 100 = Finite 100"
    using round53_of_int [of 100] by (simp add: float64_of_int_def)
  have t0: "(of_int t :: rat) \<noteq> 0" using assms(3) by simp
  show ?thesis
    unfolding gauge_percent_def assms(5,6) c t h
    using t0 assms(7,8) by (simp add: go_trunc_of_int)
qed

text \<open>
  Where the percent is what exact arithmetic gives. For a stage with
  \<open>0 < tasks \<le> 2^45\<close> and \<open>0 \<le> completedTasks \<le> tasks\<close> the percent lies between 0 and
  100. It is \<open>ceil(100 * completedTasks / tasks)\<close> when \<open>tasks\<close> does not divide
  \<open>100 * completedTasks\<close>; when it does, the percent is that value or one more, since the
  quotient and the product are each rounded to double precision before the ceiling is
  taken.
\<close>

lemma gauge_percent_value:
  assumes "0 < stage_Tasks s" "stage_Tasks s \<le> 2 ^ 45"
    and "0 \<le> stage_CompletedTasks s" "stage_CompletedTasks s \<le> stage_Tasks s"
  shows "0 \<le> gauge_percent impl s \<and> gauge_percent impl s \<le> 100 \<and>
         (\<not> stage_Tasks s dvd 100 * stage_CompletedTasks s \<longrightarrow> gauge_percent impl s = spec_percent s) \<and>
         (gauge_percent impl s = spec_percent s \<or> gauge_percent impl s = spec_percent s + 1)"
proof -
  define c where "c = stage_CompletedTasks s"
  define t where "t = stage_Tasks s"
  define y where "y = round53 (round53 (of_int c / of_int t) * 100)"
  have t: "0 < t" "t \<le> 2 ^ 45" and c: "0 \<le> c" "c \<le> t" using assms by (simp_all add: c_def t_def)
  from product_error [OF t(1) c] have y0: "0 \<le> y"
    and yerr: "\<bar>y - 100 * of_int c / of_int t\<bar> \<le> 201 / 2 ^ 53" by (simp_all add: y_def)
  note cl = ceiling_near_fraction [OF t c(1) yerr]
  have sp: "spec_percent s = \<lceil>100 * of_int c / of_int t :: rat\<rceil>"
    using t(1) by (simp add: spec_percent_def c_def t_def)
  have spd: "spec_percent s = 100 * c div t" if "t dvd 100 * c"
  proof -
    from that obtain k where k: "100 * c = t * k" by (auto simp: dvd_def)
    then have "(100 * of_int c :: rat) = of_int t * of_int k"
      by (metis of_int_mult of_int_numeral)
    then have "(100 * of_int c / of_int t :: rat) = of_int k" using t(1) by (simp add: field_simps)
    moreover have "100 * c div t = k" using k t(1) by simp
    ultimately show ?thesis by (simp add: sp)
  qed
  have near: "\<lceil>y\<rceil> = spec_percent s \<or> \<lceil>y\<rceil> = spec_percent s + 1"
    using cl spd sp by (cases "t dvd 100 * c") auto
  have exact: "\<not> t dvd 100 * c \<longrightarrow> \<lceil>y\<rceil> = spec_percent s" using cl sp by simp
  have lo: "0 \<le> \<lceil>y\<rceil>" using y0 by (simp add: zero_le_ceiling)
  have hi: "\<lceil>y\<rceil> \<le> 100"
  proof (cases "c = t")
    case True
    have "round53 1 = 1" using round53_of_int [of 1] by simp
    moreover have "round53 100 = 100" using round53_of_int [of 100] by simp
    ultimately have "y = 100" using t(1) by (simp add: y_def True)
    then show ?thesis by simp
  next
    case False
    with c have lt: "100 * c < 100 * t" by simp
    show ?thesis
    proof (cases "t dvd 100 * c")
      case True
      from True obtain k where k: "100 * c = t * k" by (auto simp: dvd_def)
      with lt have "t * k < t * 100" by (simp add: mult.commute)
      then have "k < 100" using t(1) by (simp only: mult_less_cancel_left_pos)
      moreover have "100 * c div t = k" using k t(1) by simp
      ultimately have "100 * c div t < 100" by simp
      with near spd [OF True] show ?thesis by linarith
    next
      case nd: False
      have "(100 * of_int c / of_int t :: rat) \<le> 100" using c t(1) by (simp add: field_simps)
      then have "spec_percent s \<le> 100" unfolding sp by (simp add: ceiling_le_iff)
      moreover from exact nd have "\<lceil>y\<rceil> = spec_percent s" by blast
      ultimately show ?thesis by linarith
    qed
  qed
  have rng: "- (2 ^ 63) \<le> \<lceil>y\<rceil>" "\<lceil>y\<rceil> < 2 ^ 63" using lo hi by simp_all
  have c53: "c < 2 ^ 53" "t < 2 ^ 53" using c t by simp_all
  have gp: "gauge_percent impl s = \<lceil>y\<rceil>"
    unfolding y_def
    by (rule gauge_percent_finite [OF c(1) c53(1) t(1) c53(2)])
       (use rng in \<open>simp_all add: c_def t_def y_def\<close>)
  show ?thesis unfolding gp using lo hi near exact by (simp add: t_def c_def)
qed

lemma round53_pos: "0 < x \<Longrightarrow> 0 < round53 x"
proof -
  assume x: "0 < x"
  note b = abs_diff_leD [OF round53_err [OF x]]
  show ?thesis using b x by (simp; linarith)
qed

lemma round53_minus: "round53 (- x) = - round53 x"
  by (simp add: round53_def Let_def sgn_if)

lemma round53_sign: "(round53 x = 0 \<longleftrightarrow> x = 0) \<and> (0 < round53 x \<longleftrightarrow> 0 < x)"
proof (cases "0 < x")
  case True
  with round53_pos [OF True] show ?thesis by simp
next
  case False
  show ?thesis
  proof (cases "x = 0")
    case True
    then show ?thesis by (simp add: round53_zero)
  next
    case nz: False
    with False have "0 < - x" by simp
    from round53_pos [OF this] have "round53 x < 0" by (simp add: round53_minus)
    with False nz show ?thesis by simp
  qed
qed

text \<open>
  With no tasks the division gives NaN or an infinity, which the multiplication and the
  ceiling pass on; no fault occurs, and the percent is what the implementation makes of
  that value in the conversion to \<open>int\<close>.
\<close>

lemma gauge_percent_no_tasks:
  assumes "stage_Tasks s = 0"
  shows "gauge_percent impl s =
           impl (if stage_CompletedTasks s = 0 then NaN
                 else if 0 < stage_CompletedTasks s then PosInf else NegInf)"
proof -
  have h: "float64_of_int 100 = Finite 100"
    using round53_of_int [of 100] by (simp add: float64_of_int_def)
  have z: "float64_of_int 0 = Finite 0" by (simp add: float64_of_int_def round53_zero)
  show ?thesis
    unfolding gauge_percent_def assms h z
    using round53_sign [of "of_int (stage_CompletedTasks s)"]
    by (simp add: float64_of_int_def)
qed

lemma gauge_percent_placeholder: "gauge_percent impl_min zero_Stage = - (2 ^ 63)"
  using gauge_percent_no_tasks [of zero_Stage impl_min] by (simp add: zero_Stage_def impl_min_def)
section \<open>What the regions of a stage show\<close>

lemma render_stage_regions:
  assumes "render_stage impl width lw ch cih stage = Inr (ds, c)"
  shows "\<exists>labelText. truncate_label lw (label_text stage) = Inr labelText \<and>
           ds = [Paragraph False labelText ModifierDefault ColorDefault
                   (SetRect 2 (ch + cih) lw (ch + cih + 1)),
                 Gauge False (bar_label stage) (gauge_percent impl stage)
                   (SetRect lw (ch + cih) (width - 2) (ch + cih + 1)),
                 Paragraph False (details_text (stage_Details stage)) ModifierClear ColorRed
                   (SetRect 2 (ch + (cih + 1)) (width - 2) (ch + (cih + 1) + 1))]"
  using assms by (auto simp: render_stage_def Let_def split: sum.splits)

text \<open>
  Claim C5. The text of the label region that \<open>render_stage\<close> returns, for
  \<open>labelWidth = floor(width / 2)\<close> of a width that is not negative. From \<open>labelWidth\<close> 3
  on, a label text longer than \<open>labelWidth\<close> is shown as its first \<open>labelWidth - 3\<close> bytes
  followed by \<open>...\<close>, a text that is not longer is shown unchanged, and what is shown is
  never longer than \<open>labelWidth\<close>. Below 3 no region is returned: every label text is
  longer, the slice bound \<open>labelWidth - 3\<close> is negative and the stage stops with the panic
  of line 102.
\<close>

theorem label_region_text:
  "(0 \<le> width \<longrightarrow> go_div width 2 = width div 2) \<and>
   (lw < 3 \<longrightarrow>
      render_stage impl width lw ch cih stage =
        Inl (PanicSliceBounds (lw - 3) (length (label_text stage)))) \<and>
   (3 \<le> lw \<longrightarrow>
      (\<exists>ds. render_stage impl width lw ch cih stage = Inr (ds, cih + 2) \<and> length ds = 3 \<and>
         region_text (ds ! 0) =
           (if lw < int (length (label_text stage))
            then take (nat (lw - 3)) (label_text stage) @ ''...''
            else label_text stage) \<and>
         int (length (region_text (ds ! 0))) \<le> lw))"
proof -
  have a: "0 \<le> width \<longrightarrow> go_div width 2 = width div 2" by (simp add: go_div_2_nonneg)
  have b: "lw < 3 \<longrightarrow>
      render_stage impl width lw ch cih stage =
        Inl (PanicSliceBounds (lw - 3) (length (label_text stage)))"
    by (simp add: render_stage_narrow)
  have c: "3 \<le> lw \<longrightarrow>
      (\<exists>ds. render_stage impl width lw ch cih stage = Inr (ds, cih + 2) \<and> length ds = 3 \<and>
         region_text (ds ! 0) =
           (if lw < int (length (label_text stage))
            then take (nat (lw - 3)) (label_text stage) @ ''...''
            else label_text stage) \<and>
         int (length (region_text (ds ! 0))) \<le> lw)"
  proof
    assume lw: "3 \<le> lw"
    from render_stage_wide [OF lw] obtain ds where
      r: "render_stage impl width lw ch cih stage = Inr (ds, cih + 2)" by blast
    from render_stage_regions [OF r] obtain labelText where
      t: "truncate_label lw (label_text stage) = Inr labelText" and
      l: "length ds = 3" "region_text (ds ! 0) = labelText" by auto
    from t truncate_label_ok [OF lw, of "label_text stage"] have
      e: "labelText = (if lw < int (length (label_text stage))
            then take (nat (lw - 3)) (label_text stage) @ ''...''
            else label_text stage)" by simp
    have "int (length labelText) \<le> lw" unfolding e using lw by auto
    with r l e show "\<exists>ds. render_stage impl width lw ch cih stage = Inr (ds, cih + 2) \<and> length ds = 3 \<and>
         region_text (ds ! 0) =
           (if lw < int (length (label_text stage))
            then take (nat (lw - 3)) (label_text stage) @ ''...''
            else label_text stage) \<and>
         int (length (region_text (ds ! 0))) \<le> lw" by blast
  qed
  show ?thesis by (intro conjI a b c)
qed

theorem label_region_text_witness:
  "render_stage impl_min 4 (go_div 4 2) 2 2 ex_stage = Inl (PanicSliceBounds (- 1) 34) \<and>
   region_text (drawables_of (render_stage impl_min 40 (go_div 40 2) 2 2 ex_stage) ! 0) =
     ''1 ACTIVE: collect...''"
proof -
  have n: "go_div 4 2 < 3" and w: "3 \<le> go_div 40 2" by (simp_all add: go_div_def)
  note t1 = label_region_text [of 4 "go_div 4 2" impl_min 2 2 ex_stage, THEN conjunct2, THEN conjunct1,
      rule_format, OF n]
  note t2 = label_region_text [of 40 "go_div 40 2" impl_min 2 2 ex_stage, THEN conjunct2, THEN conjunct2,
      rule_format, OF w]
  from t1 have a: "render_stage impl_min 4 (go_div 4 2) 2 2 ex_stage = Inl (PanicSliceBounds (- 1) 34)"
    by (simp add: ex_label go_div_def)
  from t2 have b: "region_text (drawables_of (render_stage impl_min 40 (go_div 40 2) 2 2 ex_stage) ! 0) =
     ''1 ACTIVE: collect...''"
    by (auto simp: drawables_of_def ex_label go_div_def)
  from a b show ?thesis by simp
qed

text \<open>
  Claim C10. The text of the detail region that \<open>render_stage\<close> returns (the third region
  of a stage). Splitting the empty string gives one empty piece, which lacks the prefix
  \<open>org.apache\<close>, so for empty details the region shows the empty text. When every piece of
  the details has the prefix, the details are not empty and the region shows the
  placeholder. When some piece lacks the prefix, the region shows the first such piece.
\<close>

theorem detail_region_text:
  assumes "render_stage impl width lw ch cih stage = Inr (ds, c)"
  shows "length ds = 3 \<and>
         strings_Split_nl [] = [[]] \<and> \<not> strings_HasPrefix [] ''org.apache'' \<and>
         (stage_Details stage = [] \<longrightarrow> region_text (ds ! 2) = []) \<and>
         ((\<forall>l\<in>set (strings_Split_nl (stage_Details stage)). strings_HasPrefix l ''org.apache'') \<longrightarrow>
             stage_Details stage \<noteq> [] \<and> region_text (ds ! 2) = ''<spark internal>'') \<and>
         ((\<exists>l\<in>set (strings_Split_nl (stage_Details stage)). \<not> strings_HasPrefix l ''org.apache'') \<longrightarrow>
             region_text (ds ! 2) =
               hd (filter (\<lambda>l. \<not> strings_HasPrefix l ''org.apache'')
                     (strings_Split_nl (stage_Details stage))))"
proof -
  from render_stage_regions [OF assms] have l: "length ds = 3"
    and r: "region_text (ds ! 2) = details_text (stage_Details stage)" by auto
  have first: "\<not> (\<forall>l\<in>set ls. strings_HasPrefix l ''org.apache'') \<Longrightarrow>
      details_loop d ls = hd (filter (\<lambda>l. \<not> strings_HasPrefix l ''org.apache'') ls)" for d ls
    by (induction ls) auto
  note e = details_text_empty [of "stage_Details stage" "[]"]
  have f: "(\<exists>l\<in>set (strings_Split_nl (stage_Details stage)). \<not> strings_HasPrefix l ''org.apache'') \<longrightarrow>
             region_text (ds ! 2) =
               hd (filter (\<lambda>l. \<not> strings_HasPrefix l ''org.apache'')
                     (strings_Split_nl (stage_Details stage)))"
    unfolding r details_text_def using first by blast
  have g: "stage_Details stage = [] \<longrightarrow> region_text (ds ! 2) = []"
    unfolding r using e by auto
  have h: "(\<forall>l\<in>set (strings_Split_nl (stage_Details stage)). strings_HasPrefix l ''org.apache'') \<longrightarrow>
             stage_Details stage \<noteq> [] \<and> region_text (ds ! 2) = ''<spark internal>''"
    unfolding r using e by blast
  from e have i: "strings_Split_nl [] = [[]]" "\<not> strings_HasPrefix [] ''org.apache''" by blast+
  show ?thesis by (intro conjI l i g h f)
qed

lemma ex_trace_split:
  "strings_Split_nl (stage_Details ex_stage_trace) =
     [''org.apache.spark.rdd.RDD.collect(RDD.scala:1030)'', ''Main.scala:12'']"
  by (simp add: ex_stage_trace_def mk_stage_def)

theorem detail_region_text_witness:
  "region_text (drawables_of (render_stage impl_min 80 40 2 1 ex_stage_trace) ! 2) = ''Main.scala:12'' \<and>
   region_text (drawables_of (render_stage impl_min 80 40 2 1 ex_stage) ! 2) = []"
proof -
  from render_stage_wide [of 40 impl_min 80 2 1 ex_stage_trace] obtain ds1 where
    r1: "render_stage impl_min 80 40 2 1 ex_stage_trace = Inr (ds1, 1 + 2)" by auto
  from render_stage_wide [of 40 impl_min 80 2 1 ex_stage] obtain ds2 where
    r2: "render_stage impl_min 80 40 2 1 ex_stage = Inr (ds2, 1 + 2)" by auto
  from detail_region_text [OF r1] have "region_text (ds1 ! 2) = ''Main.scala:12''"
    by (simp add: ex_trace_split strings_HasPrefix_def)
  moreover from detail_region_text [OF r2] have "region_text (ds2 ! 2) = []"
    by (simp add: ex_stage_def mk_stage_def)
  ultimately show ?thesis by (simp add: r1 r2 drawables_of_def)
qed

lemma render_stage_gauge:
  "render_stage impl width lw ch cih stage = Inr (ds, c) \<Longrightarrow>
     region_percents ds = [gauge_percent impl stage]"
  by (auto dest: render_stage_regions)

lemma gauge_percent_examples:
  "gauge_percent impl (mk_stage 2 ''reduce'' ''PENDING'' 0 4) = 0"
  "gauge_percent impl (mk_stage 1 ''map'' ''ACTIVE'' 7 25) = 29"
  "gauge_percent impl (mk_stage 3 ''join'' ''ACTIVE'' 11 10) = 111"
  by code_simp+

lemma gauge_percent_zero_Stage: "gauge_percent impl zero_Stage = impl NaN"
  using gauge_percent_no_tasks [of zero_Stage impl] by (simp add: zero_Stage_def)

lemma itoa_more: "itoa 2 = ''2''" "itoa 4 = ''4''" "itoa 7 = ''7''" "itoa 25 = ''25''" "itoa 11 = ''11''"
  by (simp_all add: itoa_def digit_char_def)

lemma ex_snapshot_layout:
  "layout impl 80 24 ex_snapshot =
     Inr [Paragraph False ''Running against Spark on http://x'' ModifierBold ColorDefault (SetRect 0 0 80 1),
          Block True ''demo (app-1)'' ModifierBoldUnderline (SetRect 0 2 80 14),
          Block True ''count (Stage 0)'' ModifierClear (SetRect 1 3 79 9),
          Paragraph False ''2 PENDING: reduce'' ModifierDefault ColorDefault (SetRect 2 4 40 5),
          Gauge False ''0/4'' 0 (SetRect 40 4 78 5),
          Paragraph False [] ModifierClear ColorRed (SetRect 2 5 78 6),
          Paragraph False ''1 ACTIVE: map'' ModifierDefault ColorDefault (SetRect 2 6 40 7),
          Gauge False ''7/25'' 29 (SetRect 40 6 78 7),
          Paragraph False [] ModifierClear ColorRed (SetRect 2 7 78 8),
          Block True ''save (Stage 1)'' ModifierClear (SetRect 1 9 79 13),
          Paragraph False ''0 : '' ModifierDefault ColorDefault (SetRect 2 10 40 11),
          Gauge False ''0/0'' (impl NaN) (SetRect 40 10 78 11),
          Paragraph False [] ModifierClear ColorRed (SetRect 2 11 78 12)]"
proof -
  have s1: "render_stage impl 80 40 2 2 (mk_stage 2 ''reduce'' ''PENDING'' 0 4) =
      Inr ([Paragraph False ''2 PENDING: reduce'' ModifierDefault ColorDefault (SetRect 2 4 40 5),
            Gauge False ''0/4'' 0 (SetRect 40 4 78 5),
            Paragraph False [] ModifierClear ColorRed (SetRect 2 5 78 6)], 4)"
    by (simp add: render_stage_def truncate_label_def Let_def gauge_percent_examples)
       (simp add: label_text_def bar_label_def details_text_def strings_HasPrefix_def mk_stage_def
          itoa_small itoa_more)
  have s2: "render_stage impl 80 40 2 4 (mk_stage 1 ''map'' ''ACTIVE'' 7 25) =
      Inr ([Paragraph False ''1 ACTIVE: map'' ModifierDefault ColorDefault (SetRect 2 6 40 7),
            Gauge False ''7/25'' 29 (SetRect 40 6 78 7),
            Paragraph False [] ModifierClear ColorRed (SetRect 2 7 78 8)], 6)"
    by (simp add: render_stage_def truncate_label_def Let_def gauge_percent_examples)
       (simp add: label_text_def bar_label_def details_text_def strings_HasPrefix_def mk_stage_def
          itoa_small itoa_more)
  have s3: "render_stage impl 80 40 2 8 zero_Stage =
      Inr ([Paragraph False ''0 : '' ModifierDefault ColorDefault (SetRect 2 10 40 11),
            Gauge False ''0/0'' (impl NaN) (SetRect 40 10 78 11),
            Paragraph False [] ModifierClear ColorRed (SetRect 2 11 78 12)], 10)"
    by (simp add: render_stage_def truncate_label_def Let_def gauge_percent_zero_Stage)
       (simp add: label_text_def bar_label_def details_text_def strings_HasPrefix_def zero_Stage_def
          itoa_small)
  show ?thesis
    by (simp add: layout_def ex_snapshot_def render_app_def render_job_def go_div_def Let_def
          s1 s2 s3 ex_application_def ex_job0_def ex_job1_def itoa_small)
qed

text \<open>
  Claim C1. The percents of the gauge regions that the layout returns for the example
  snapshot, which \<open>computeState\<close> builds from the example network, against the percents
  the claim gives for its three stages. For 0 of 4 tasks both are 0. For 7 of 25 the
  claim gives \<open>ceil(28) = 28\<close> and the gauge shows 29: the quotient rounds to a double
  slightly above 0.28 and the product to one slightly above 28. For the stage of the
  unresolved reference, which has no tasks, the claim gives 0 and the gauge shows what
  the implementation makes of NaN in the conversion to \<open>int\<close>, the smallest integer under
  \<open>impl_min\<close>. For 11 completed tasks of 10 the gauge shows 111, outside 0 to 100.
\<close>

theorem gauge_region_percent:
  "region_percents (screen_of (layout impl 80 24 ex_snapshot)) = [0, 29, impl NaN] \<and>
   map spec_percent (concat (map ej_Stages (concat (map ea_Jobs (st_Apps ex_snapshot))))) = [0, 28, 0] \<and>
   impl_min NaN = - 9223372036854775808 \<and>
   region_percents (drawables_of (render_stage impl 80 40 2 1 (mk_stage 3 ''join'' ''ACTIVE'' 11 10))) = [111]"
proof -
  have a: "region_percents (screen_of (layout impl 80 24 ex_snapshot)) = [0, 29, impl NaN]"
    by (simp add: ex_snapshot_layout screen_of_def)
  have b: "map spec_percent (concat (map ej_Stages (concat (map ea_Jobs (st_Apps ex_snapshot))))) = [0, 28, 0]"
    by (simp add: ex_snapshot_def spec_percent_def mk_stage_def zero_Stage_def)
  have c: "impl_min NaN = - 9223372036854775808" by (simp add: impl_min_def)
  from render_stage_wide [of 40 impl 80 2 1 "mk_stage 3 ''join'' ''ACTIVE'' 11 10"] obtain ds where
    r: "render_stage impl 80 40 2 1 (mk_stage 3 ''join'' ''ACTIVE'' 11 10) = Inr (ds, 1 + 2)" by auto
  from render_stage_regions [OF r] have d:
    "region_percents (drawables_of (render_stage impl 80 40 2 1 (mk_stage 3 ''join'' ''ACTIVE'' 11 10))) = [111]"
    by (auto simp: r drawables_of_def gauge_percent_examples)
  show ?thesis by (intro conjI a b c d)
qed

end
